theory Spec2Isabelle
  imports Complex_Main
begin

section \<open>Python strings\<close>

text \<open>
  A Python \<^verbatim>\<open>str\<close> is modelled as a \<^typ>\<open>string\<close>. A character stands for the Unicode
  code point of the same number, so the model covers the texts whose code points are below
  256. On these the functions below compute what \<^verbatim>\<open>str.strip\<close>, \<^verbatim>\<open>str.lower\<close>,
  \<^verbatim>\<open>str.isdigit\<close>, \<^verbatim>\<open>int\<close>, \<^verbatim>\<open>str.split\<close>, \<^verbatim>\<open>str.splitlines\<close>,
  \<^verbatim>\<open>str.startswith\<close>, \<^verbatim>\<open>str.replace\<close> and \<^verbatim>\<open>in\<close> compute.
\<close>

datatype exn = IndexError | KeyError | ValueError | SerialException

text \<open>\<^verbatim>\<open>xs[i]\<close> for an index that is not negative.\<close>

definition py_get :: "'a list \<Rightarrow> nat \<Rightarrow> exn + 'a" where
  "py_get xs i = (if i < length xs then Inr (xs ! i) else Inl IndexError)"

text \<open>White space: the code points on which \<^verbatim>\<open>str.isspace\<close> holds.\<close>

definition isspace_chr :: "char \<Rightarrow> bool" where
  "isspace_chr c \<longleftrightarrow>
     c \<in> set [CHR 0x09, CHR 0x0A, CHR 0x0B, CHR 0x0C, CHR 0x0D, CHR 0x1C, CHR 0x1D,
              CHR 0x1E, CHR 0x1F, CHR 0x20, CHR 0x85, CHR 0xA0]"

definition strip :: "string \<Rightarrow> string" where
  "strip s = rev (dropWhile isspace_chr (rev (dropWhile isspace_chr s)))"

definition startswith :: "string \<Rightarrow> string \<Rightarrow> bool" where
  "startswith s p \<longleftrightarrow> take (length p) s = p"

text \<open>\<^verbatim>\<open>sub in s\<close>: the text \<open>sub\<close> occurs in \<open>s\<close>.\<close>

fun contains :: "string \<Rightarrow> string \<Rightarrow> bool" where
  "contains sub [] \<longleftrightarrow> sub = []"
| "contains sub (c # cs) \<longleftrightarrow> startswith (c # cs) sub \<or> contains sub cs"

text \<open>Lower case: the letters A to Z, and the capital letters of the Latin-1 block.\<close>

definition upper_letters :: "string" where
  "upper_letters = ''ABCDEFGHIJKLMNOPQRSTUVWXYZ'' @
       [CHR 0xC0, CHR 0xC1, CHR 0xC2, CHR 0xC3, CHR 0xC4, CHR 0xC5, CHR 0xC6, CHR 0xC7,
        CHR 0xC8, CHR 0xC9, CHR 0xCA, CHR 0xCB, CHR 0xCC, CHR 0xCD, CHR 0xCE, CHR 0xCF,
        CHR 0xD0, CHR 0xD1, CHR 0xD2, CHR 0xD3, CHR 0xD4, CHR 0xD5, CHR 0xD6, CHR 0xD8,
        CHR 0xD9, CHR 0xDA, CHR 0xDB, CHR 0xDC, CHR 0xDD, CHR 0xDE]"

definition lower_letters :: "string" where
  "lower_letters = ''abcdefghijklmnopqrstuvwxyz'' @
       [CHR 0xE0, CHR 0xE1, CHR 0xE2, CHR 0xE3, CHR 0xE4, CHR 0xE5, CHR 0xE6, CHR 0xE7,
        CHR 0xE8, CHR 0xE9, CHR 0xEA, CHR 0xEB, CHR 0xEC, CHR 0xED, CHR 0xEE, CHR 0xEF,
        CHR 0xF0, CHR 0xF1, CHR 0xF2, CHR 0xF3, CHR 0xF4, CHR 0xF5, CHR 0xF6, CHR 0xF8,
        CHR 0xF9, CHR 0xFA, CHR 0xFB, CHR 0xFC, CHR 0xFD, CHR 0xFE]"

definition lower_chr :: "char \<Rightarrow> char" where
  "lower_chr c = (case map_of (zip upper_letters lower_letters) c of Some d \<Rightarrow> d | None \<Rightarrow> c)"

definition lower :: "string \<Rightarrow> string" where
  "lower s = map lower_chr s"

text \<open>
  \<^verbatim>\<open>str.isdigit\<close> holds of the ten decimal digits and of the superscript digits
  \<open>0xB2\<close>, \<open>0xB3\<close> and \<open>0xB9\<close>; \<^verbatim>\<open>int\<close> reads only the decimal digits and raises
  \<^verbatim>\<open>ValueError\<close> on anything else. It also raises \<^verbatim>\<open>ValueError\<close> on a text of more
  digits than the interpreter's limit \<^verbatim>\<open>sys.int_max_str_digits\<close>, which is 4300 unless it
  is set otherwise, and the scripts do not set it; leading zeros count as digits.
\<close>

definition isdecimal_chr :: "char \<Rightarrow> bool" where
  "isdecimal_chr c \<longleftrightarrow> 0x30 \<le> (of_char c :: nat) \<and> (of_char c :: nat) \<le> 0x39"

definition isdigit_chr :: "char \<Rightarrow> bool" where
  "isdigit_chr c \<longleftrightarrow> isdecimal_chr c \<or> c \<in> set [CHR 0xB2, CHR 0xB3, CHR 0xB9]"

definition isdigit :: "string \<Rightarrow> bool" where
  "isdigit s \<longleftrightarrow> s \<noteq> [] \<and> list_all isdigit_chr s"

definition digit_val :: "char \<Rightarrow> int" where
  "digit_val c = int (of_char c) - 0x30"

text \<open>The number that a text of decimal digits reads as.\<close>

definition decimal_value :: "string \<Rightarrow> int" where
  "decimal_value s = foldl (\<lambda>a c. 10 * a + digit_val c) 0 s"

definition int_max_str_digits :: nat where
  "int_max_str_digits = 4300"

text \<open>
  \<^verbatim>\<open>int(s)\<close> for a text \<open>s\<close> on which \<^verbatim>\<open>isdigit\<close> holds; the scripts call it on no other
  text.
\<close>

definition py_int :: "string \<Rightarrow> exn + int" where
  "py_int s =
     (if s \<noteq> [] \<and> list_all isdecimal_chr s then
        (if length s > int_max_str_digits then Inl ValueError else Inr (decimal_value s))
      else Inl ValueError)"

text \<open>\<^verbatim>\<open>s.split(sep)\<close> for a separator of one character.\<close>

fun py_split :: "char \<Rightarrow> string \<Rightarrow> string list" where
  "py_split sep [] = [[]]"
| "py_split sep (c # cs) =
     (if c = sep then [] # py_split sep cs
      else (case py_split sep cs of w # ws \<Rightarrow> (c # w) # ws | [] \<Rightarrow> [[c]]))"

text \<open>\<^verbatim>\<open>s.replace(c, "")\<close> for one character \<open>c\<close>.\<close>

definition remove_chr :: "char \<Rightarrow> string \<Rightarrow> string" where
  "remove_chr c s = filter (\<lambda>x. x \<noteq> c) s"

definition linebreak_chr :: "char \<Rightarrow> bool" where
  "linebreak_chr c \<longleftrightarrow>
     c \<in> set [CHR 0x0A, CHR 0x0B, CHR 0x0C, CHR 0x0D, CHR 0x1C, CHR 0x1D, CHR 0x1E, CHR 0x85]"

text \<open>
  \<^verbatim>\<open>s.splitlines()\<close>: a line ends at a line break, a carriage return followed by a line
  feed is one break, and no empty line follows the last break.
\<close>

function splitlines :: "string \<Rightarrow> string list" where
  "splitlines s =
     (if s = [] then []
      else takeWhile (\<lambda>c. \<not> linebreak_chr c) s #
        (case dropWhile (\<lambda>c. \<not> linebreak_chr c) s of
           [] \<Rightarrow> []
         | b # r \<Rightarrow>
             splitlines (if b = CHR 0x0D \<and> startswith r [CHR 0x0A] then tl r else r)))"
  by pat_completeness auto
termination
proof (relation "measure length", goal_cases)
  case 1
  show ?case by simp
next
  case (2 s b r)
  have "length (dropWhile (\<lambda>c. \<not> linebreak_chr c) s) \<le> length s"
    by (rule length_dropWhile_le)
  with 2 show ?case by (auto simp: less_Suc_eq_le)
qed

declare splitlines.simps [simp del]


section \<open>The modem on the serial line\<close>

text \<open>
  The serial port is the environment of the program. It is modelled by the outcomes of the
  exchanges still to come, in order, and by a log of what the program has asked of it. An
  exchange either raises (a fault of the serial line) or gives back the text that
  \<^verbatim>\<open>read_all().decode(errors="ignore")\<close> returns; when nothing is scripted, no byte has
  arrived and that text is empty. Waiting (\<^verbatim>\<open>time.sleep\<close>), the locks and printing to
  the console are left out.
\<close>

datatype io = Fault | Resp string

datatype request = Sms string string | At string

record modem =
  script :: "io list"
  wire :: "request list"

definition exchange :: "request \<Rightarrow> modem \<Rightarrow> io \<times> modem" where
  "exchange r m =
     (case script m of
        [] \<Rightarrow> (Resp [], m\<lparr>wire := wire m @ [r]\<rparr>)
      | x # xs \<Rightarrow> (x, m\<lparr>script := xs, wire := wire m @ [r]\<rparr>))"

definition send_at_command :: "string \<Rightarrow> modem \<Rightarrow> (exn + string) \<times> modem" where
  "send_at_command command m =
     (case exchange (At command) m of
        (Fault, m') \<Rightarrow> (Inl SerialException, m')
      | (Resp resp, m') \<Rightarrow> (Inr resp, m'))"

subsection \<open>Sending with retries\<close>

text \<open>
  The loop \<^verbatim>\<open>for attempt in range(retries)\<close> of \<^verbatim>\<open>send_sms\<close>; the first argument
  counts the attempts that are left. An attempt addresses the message to the number with a
  leading \<open>+\<close>, and succeeds when the text read back contains \<open>OK\<close> or \<open>+CMGS\<close>. A
  fault is caught and the loop goes on.
\<close>

definition success_token :: "string \<Rightarrow> bool" where
  "success_token resp \<longleftrightarrow> contains ''OK'' resp \<or> contains ''+CMGS'' resp"

definition phone_s :: "string \<Rightarrow> string" where
  "phone_s ph = (if \<not> startswith ph ''+'' then ''+'' @ ph else ph)"

fun send_sms_loop :: "nat \<Rightarrow> string \<Rightarrow> string \<Rightarrow> modem \<Rightarrow> bool \<times> modem" where
  "send_sms_loop 0 ph message m = (False, m)"
| "send_sms_loop (Suc k) ph message m =
     (case exchange (Sms (phone_s ph) message) m of
        (Resp resp, m') \<Rightarrow>
          if success_token resp then (True, m') else send_sms_loop k ph message m'
      | (Fault, m') \<Rightarrow> send_sms_loop k ph message m')"

definition retries :: nat where
  "retries = 3"

definition send_sms :: "string \<Rightarrow> string \<Rightarrow> modem \<Rightarrow> bool \<times> modem" where
  "send_sms ph message m = send_sms_loop retries ph message m"

subsection \<open>Reading and deleting messages\<close>

record sms =
  index :: string
  phone :: string
  content :: string

text \<open>
  The index of a header line: \<^verbatim>\<open>line.split(":")[1].split(",")[0].strip()\<close>, and in the
  \<^verbatim>\<open>except\<close> branch \<^verbatim>\<open>parts[0].split(":")[1].strip()\<close>.
\<close>

definition index_try :: "string \<Rightarrow> exn + string" where
  "index_try line =
     (case py_get (py_split CHR '':'' line) 1 of
        Inl e \<Rightarrow> Inl e
      | Inr a \<Rightarrow>
          (case py_get (py_split CHR '','' a) 0 of
             Inl e \<Rightarrow> Inl e
           | Inr b \<Rightarrow> Inr (strip b)))"

definition index_except :: "string list \<Rightarrow> exn + string" where
  "index_except parts =
     (case py_get parts 0 of
        Inl e \<Rightarrow> Inl e
      | Inr p0 \<Rightarrow>
          (case py_get (py_split CHR '':'' p0) 1 of
             Inl e \<Rightarrow> Inl e
           | Inr b \<Rightarrow> Inr (strip b)))"

definition header_index :: "string \<Rightarrow> string list \<Rightarrow> exn + string" where
  "header_index line parts =
     (case index_try line of Inr i \<Rightarrow> Inr i | Inl _ \<Rightarrow> index_except parts)"

text \<open>The loop \<^verbatim>\<open>while i < len(lines)\<close> of \<^verbatim>\<open>read_sms\<close>.\<close>

function read_sms_loop :: "string list \<Rightarrow> nat \<Rightarrow> sms list \<Rightarrow> exn + sms list" where
  "read_sms_loop lines i msgs =
     (if i < length lines then
        (let line = strip (lines ! i) in
         if startswith line ''+CMGL:'' then
           (let parts = py_split CHR '','' line in
            case header_index line parts of
              Inl e \<Rightarrow> Inl e
            | Inr idx \<Rightarrow>
                (let ph = (if length parts \<ge> 3 then strip (remove_chr CHR 0x22 (parts ! 2))
                           else []);
                     body = (if i + 1 < length lines then strip (lines ! (i + 1)) else [])
                 in read_sms_loop lines (i + 1 + 1)
                      (msgs @ [\<lparr>index = idx, phone = ph, content = body\<rparr>])))
         else read_sms_loop lines (i + 1) msgs)
      else Inr msgs)"
  by pat_completeness auto
termination
  by (relation "measure (\<lambda>(lines, i, msgs). length lines - i)") auto

declare read_sms_loop.simps [simp del]

definition read_sms_parse :: "string \<Rightarrow> exn + sms list" where
  "read_sms_parse out = read_sms_loop (splitlines out) 0 []"

definition read_sms :: "modem \<Rightarrow> (exn + sms list) \<times> modem" where
  "read_sms m =
     (case send_at_command (''AT+CMGL='' @ [CHR 0x22] @ ''REC UNREAD'' @ [CHR 0x22]) m of
        (Inl e, m') \<Rightarrow> (Inl e, m')
      | (Inr out, m') \<Rightarrow> (read_sms_parse out, m'))"

definition delete_sms :: "string \<Rightarrow> modem \<Rightarrow> (exn + unit) \<times> modem" where
  "delete_sms idx m =
     (case send_at_command (''AT+CMGD='' @ idx) m of
        (Inl e, m') \<Rightarrow> (Inl e, m')
      | (Inr _, m') \<Rightarrow> (Inr (), m'))"


section \<open>The tables of the bot\<close>

text \<open>
  The program only joins and sends these texts. The one letter beyond code point 255
  (U+0175, in the first Tumbuka question) is written as its two UTF-8 bytes, the form in
  which \<^verbatim>\<open>message.encode()\<close> puts it on the line.
\<close>

definition groupNames :: "string list" where
  "groupNames =
     ['''',
      ''Mkama'',
      ''Chilulu'',
      ''Chimnyanga'',
      ''Tchesamu'',
      ''Emcizini'',
      ''Mkamaumoza'',
      ''Kabira'',
      ''Chambizi'',
      ''Kanjuchi'',
      ''Tiphunzire'',
      ''Kanyenda'',
      ''Chivunguti'',
      ''Ukwe'',
      ''Mvunguti'',
      ''Chimbiya'',
      ''Lisasadzi'',
      ''Kanjeza'']"

definition questions_english :: "string list" where
  "questions_english =
     [''Number of members present today'',
      ''Amount of shares collected today'',
      ''Amount of social fund collected today'',
      ''Amount borrowed today'',
      ''Amount repaid today'',
      ''Interest paid today'',
      ''Amount paid for penalties (latecomers and absentees)'']"

definition questions_chichewa :: "string list" where
  "questions_chichewa =
     [''Anthu omwe anabwera lero'',
      ''Ndalama za ma sheya zotoleledwa lero'',
      ''Ndalama zadzidzidzi zatoleredwa lero'',
      ''Ndalama zomwe zabwerekedwa'',
      ''Ndalama zomwe zabwenzedwa'',
      ''Ndalama za chiongola dzanja yomwe yapelekedwa lero'',
      ''Ndalama za chilango zomwe zaperekedwa (ochedwa ndi ojomba)'']"

definition questions_tumbuka :: "string list" where
  "questions_tumbuka =
     [''Nambala ya '' @ [CHR 0xC5, CHR 0xB5] @ ''anthu agha wangwiza mwahuno ku gulu'',
      ''Ndalama ya masheya iyo yasonkheka yamwahuno'',
      ''Ndalama ya zizizi iyo yasonkheka yamwahuno'',
      ''Ndalama iyo yabwerekeka mwahuno'',
      ''Ndalama za ngongoli izo zawezgeka'',
      ''Ndalama ya interest iyo yasonkheka mwahuno'',
      ''Ndalama iyo yasonkheka lero mu vilango/kubuda'']"

definition followup_questions :: "string \<rightharpoonup> string list" where
  "followup_questions =
     map_of [(''english'', questions_english),
             (''chichewa'', questions_chichewa),
             (''tumbuka'', questions_tumbuka)]"

definition LANGUAGE_MENU :: string where
  "LANGUAGE_MENU = ''Choose your language:\<newline>1. English\<newline>2. Chichewa\<newline>3. Chitumbuka''"

definition group_list_english :: "string \<times> string" where
  "group_list_english =
     (''Choose your group number from the list below:\<newline>\<newline>'' @
      ''1.  Mkama\<newline>2.  Chilulu\<newline>3.  Chimnyanga\<newline>4.  Tchesamu\<newline>5.  Emcizini\<newline>6.  Mkamaumoza\<newline>7.  Kabira\<newline>8.  Chambizi'',
      ''9.  Kanjuchi\<newline>10. Tiphunzire\<newline>11. Kanyenda\<newline>12. Chivunguti\<newline>13. Ukwe\<newline>14. Mvunguti\<newline>15. Chimbiya\<newline>16. Lisasadzi\<newline>17. Kanjeza'')"

definition group_list_chichewa :: "string \<times> string" where
  "group_list_chichewa =
     (''Sankhani nambala la gulu yanu:\<newline>\<newline>'' @
      ''1.  Mkama\<newline>2.  Chilulu\<newline>3.  Chimnyanga\<newline>4.  Tchesamu\<newline>5.  Emcizini\<newline>6.  Mkamaumoza\<newline>7.  Kabira\<newline>8.  Chambizi'',
      ''9.  Kanjuchi\<newline>10. Tiphunzire\<newline>11. Kanyenda\<newline>12. Chivunguti\<newline>13. Ukwe\<newline>14. Mvunguti\<newline>15. Chimbiya\<newline>16. Lisasadzi\<newline>17. Kanjeza'')"

definition group_list_tumbuka :: "string \<times> string" where
  "group_list_tumbuka =
     (''Sankhani nambala la gulu yanu:\<newline>\<newline>'' @
      ''1.  Mkama\<newline>2.  Chilulu\<newline>3.  Chimnyanga\<newline>4.  Tchesamu\<newline>5.  Emcizini\<newline>6.  Mkamaumoza\<newline>7.  Kabira\<newline>8.  Chambizi'',
      ''9.  Kanjuchi\<newline>10. Tiphunzire\<newline>11. Kanyenda\<newline>12. Chivunguti\<newline>13. Ukwe\<newline>14. Mvunguti\<newline>15. Chimbiya\<newline>16. Lisasadzi\<newline>17. Kanjeza'')"

definition group_list_parts :: "string \<rightharpoonup> string \<times> string" where
  "group_list_parts =
     map_of [(''english'', group_list_english),
             (''chichewa'', group_list_chichewa),
             (''tumbuka'', group_list_tumbuka)]"

definition SESSION_TIMEOUT :: real where
  "SESSION_TIMEOUT = 40 * 60"

section \<open>Sessions, the report file and the message handler\<close>

text \<open>
  A session is the dictionary that \<^verbatim>\<open>handle_message\<close> builds; \<^verbatim>\<open>None\<close> is
  \<^const>\<open>None\<close>. Time is the reading of \<^verbatim>\<open>time.time()\<close>, a real number of seconds
  (the difference of two such readings that lie within a factor of two of each other is
  exact in floating point, so the comparison with the timeout is the one of the reals). The
  state of the program is the dictionary of the sessions, the modem and the report file, which
  is absent or holds rows of fields. The handler is modelled as one step: the threads of the
  program and their interleaving are not part of the model.
\<close>

record session =
  step :: int
  lang :: "string option"
  answers :: "string list"
  "group" :: "string option"
  last_active :: real

record world =
  sessions :: "string \<rightharpoonup> session"
  ser :: modem
  csv_file :: "string list list option"

subsection \<open>The report file\<close>

definition csv_header :: "string list" where
  "csv_header =
     [''Phone'', ''Language'', ''Group'', ''Members'', ''Shares'', ''SocialFund'',
      ''LoansTaken'', ''LoansRepaid'', ''Interest'', ''Penalties'', ''Timestamp'']"

text \<open>The writer puts \<^verbatim>\<open>None\<close> into the file as the empty field.\<close>

definition cell :: "string option \<Rightarrow> string" where
  "cell v = (case v of None \<Rightarrow> [] | Some x \<Rightarrow> x)"

definition answer_cell :: "string list \<Rightarrow> nat \<Rightarrow> string" where
  "answer_cell as i = (if length as > i then as ! i else [])"

definition csv_row ::
  "string \<Rightarrow> string option \<Rightarrow> string option \<Rightarrow> string list \<Rightarrow> string \<Rightarrow> string list" where
  "csv_row ph lg group_name as stamp =
     [ph, cell lg, cell group_name,
      answer_cell as 0, answer_cell as 1, answer_cell as 2, answer_cell as 3,
      answer_cell as 4, answer_cell as 5, answer_cell as 6,
      stamp]"

text \<open>
  \<open>stamp\<close> is the text of \<^verbatim>\<open>datetime.now().strftime(TIME_FORMAT)\<close>. The header row is
  written when the file did not exist.
\<close>

definition save_to_csv ::
  "string \<Rightarrow> string option \<Rightarrow> string option \<Rightarrow> string list \<Rightarrow> string \<Rightarrow>
   string list list option \<Rightarrow> string list list option" where
  "save_to_csv ph lg group_name as stamp file =
     (case file of
        None \<Rightarrow> Some [csv_header, csv_row ph lg group_name as stamp]
      | Some rows \<Rightarrow> Some (rows @ [csv_row ph lg group_name as stamp]))"

subsection \<open>The steps of the conversation\<close>

text \<open>A call of \<^verbatim>\<open>send_sms\<close> whose result the caller drops.\<close>

definition reply :: "string \<Rightarrow> string \<Rightarrow> world \<Rightarrow> world" where
  "reply ph message w = w\<lparr>ser := snd (send_sms ph message (ser w))\<rparr>"

definition new_session :: "real \<Rightarrow> session" where
  "new_session now = \<lparr>step = - 1, lang = None, answers = [], group = None, last_active = now\<rparr>"

text \<open>A look-up in a dictionary whose keys are texts; \<^verbatim>\<open>None\<close> is no key of it.\<close>

definition lookup :: "(string \<rightharpoonup> 'a) \<Rightarrow> string option \<Rightarrow> exn + 'a" where
  "lookup d k =
     (case k of
        None \<Rightarrow> Inl KeyError
      | Some key \<Rightarrow> (case d key of None \<Rightarrow> Inl KeyError | Some v \<Rightarrow> Inr v))"

text \<open>Step \<open>-1\<close>: the choice of the language.\<close>

definition language_choice :: "string \<Rightarrow> string option" where
  "language_choice txt =
     (if txt = ''1'' then Some ''english''
      else if txt = ''2'' then Some ''chichewa''
      else if txt = ''3'' then Some ''tumbuka''
      else None)"

definition language_step :: "string \<Rightarrow> string \<Rightarrow> session \<Rightarrow> world \<Rightarrow> exn option \<times> world" where
  "language_step ph txt s w =
     (case language_choice txt of
        None \<Rightarrow> (None, reply ph LANGUAGE_MENU w)
      | Some lg \<Rightarrow>
          (let w1 = w\<lparr>sessions := (sessions w)(ph \<mapsto> s\<lparr>lang := Some lg, step := 0\<rparr>)\<rparr> in
           case lookup group_list_parts (Some lg) of
             Inl e \<Rightarrow> (Some e, w1)
           | Inr (p1, p2) \<Rightarrow> (None, reply ph p2 (reply ph p1 w1))))"

text \<open>Step \<open>0\<close>: the number of the group. The test is
  \<^verbatim>\<open>text.isdigit() and 1 <= int(text) <= 17\<close>.\<close>

definition valid_group :: "string \<Rightarrow> exn + bool" where
  "valid_group txt =
     (if isdigit txt then
        (case py_int txt of Inl e \<Rightarrow> Inl e | Inr n \<Rightarrow> Inr (1 \<le> n \<and> n \<le> 17))
      else Inr False)"

definition group_step :: "string \<Rightarrow> string \<Rightarrow> session \<Rightarrow> world \<Rightarrow> exn option \<times> world" where
  "group_step ph txt s w =
     (case valid_group txt of
        Inl e \<Rightarrow> (Some e, w)
      | Inr True \<Rightarrow>
          (case py_int txt of
             Inl e \<Rightarrow> (Some e, w)
           | Inr gid \<Rightarrow>
               (case py_get groupNames (nat gid) of
                  Inl e \<Rightarrow> (Some e, w)
                | Inr g \<Rightarrow>
                    (let w1 = w\<lparr>sessions := (sessions w)(ph \<mapsto> s\<lparr>group := Some g, step := 1\<rparr>)\<rparr> in
                     case lookup followup_questions (lang s) of
                       Inl e \<Rightarrow> (Some e, w1)
                     | Inr qs \<Rightarrow>
                         (case py_get qs 0 of
                            Inl e \<Rightarrow> (Some e, w1)
                          | Inr q \<Rightarrow> (None, reply ph q w1)))))
      | Inr False \<Rightarrow>
          (case lookup group_list_parts (lang s) of
             Inl e \<Rightarrow> (Some e, w)
           | Inr (p1, p2) \<Rightarrow>
               (None, reply ph p2 (reply ph (''Invalid group number. '' @ p1) w))))"

text \<open>Steps \<open>1\<close> to \<open>7\<close>: the answers. After the seventh the session is deleted, the
  report is saved and the sender is thanked.\<close>

definition answer_step ::
  "string \<Rightarrow> string \<Rightarrow> string \<Rightarrow> session \<Rightarrow> world \<Rightarrow> exn option \<times> world" where
  "answer_step stamp ph txt s w =
     (if isdigit txt then
        (let s1 = s\<lparr>answers := answers s @ [txt], step := step s + 1\<rparr>;
             w1 = w\<lparr>sessions := (sessions w)(ph \<mapsto> s1)\<rparr>;
             next_step = step s1;
             lang_now = lang s1
         in if next_step \<le> 7 then
              (case lookup followup_questions lang_now of
                 Inl e \<Rightarrow> (Some e, w1)
               | Inr qs \<Rightarrow>
                   (case py_get qs (nat (next_step - 1)) of
                      Inl e \<Rightarrow> (Some e, w1)
                    | Inr q \<Rightarrow> (None, reply ph q w1)))
            else
              (let w2 = w1\<lparr>sessions := (sessions w1)(ph := None)\<rparr>;
                   w3 = w2\<lparr>csv_file :=
                          save_to_csv ph lang_now (group s1) (answers s1) stamp (csv_file w2)\<rparr>
               in (None,
                   reply ph ''Thank you! Your report has been received and saved.'' w3)))
      else
        (case lookup followup_questions (lang s) of
           Inl e \<Rightarrow> (Some e, w)
         | Inr qs \<Rightarrow>
             (case py_get qs (nat (step s - 1)) of
                Inl e \<Rightarrow> (Some e, w)
              | Inr q \<Rightarrow> (None, reply ph (''Invalid number. '' @ q) w))))"

subsection \<open>The handler\<close>

text \<open>
  \<open>now\<close> is the reading of the clock at the call. The result is the exception that leaves
  the handler, if one does, and the state at that moment: what was stored before the
  exception stays stored.
\<close>

definition handle_message ::
  "real \<Rightarrow> string \<Rightarrow> string \<Rightarrow> string \<Rightarrow> world \<Rightarrow> exn option \<times> world" where
  "handle_message now stamp ph txt0 w =
     (let txt = strip txt0;
          session_exists = (ph \<in> dom (sessions w))
      in if \<not> session_exists \<and> \<not> contains ''vsla'' (lower txt) then (None, w)
         else
           (let s = (case sessions w ph of None \<Rightarrow> new_session now | Some s0 \<Rightarrow> s0)
                      \<lparr>last_active := now\<rparr>;
                w1 = w\<lparr>sessions := (sessions w)(ph \<mapsto> s)\<rparr>
            in if step s = - 1 then language_step ph txt s w1
               else if step s = 0 then group_step ph txt s w1
               else if 1 \<le> step s \<and> step s \<le> 7 then answer_step stamp ph txt s w1
               else (None, w1)))"

subsection \<open>The worker and the sweep\<close>

text \<open>
  \<^verbatim>\<open>process_message\<close>: the handler runs in a \<^verbatim>\<open>try\<close> whose \<^verbatim>\<open>except\<close> branch only
  prints; the \<^verbatim>\<open>finally\<close> branch deletes the message from the modem, and an exception of
  that deletion is printed too.
\<close>

definition acknowledge :: "sms \<Rightarrow> world \<Rightarrow> world" where
  "acknowledge msg w =
     (case delete_sms (index msg) (ser w) of
        (Inl e, m) \<Rightarrow> w\<lparr>ser := m\<rparr>
      | (Inr _, m) \<Rightarrow> w\<lparr>ser := m\<rparr>)"

definition process_message :: "real \<Rightarrow> string \<Rightarrow> sms \<Rightarrow> world \<Rightarrow> world" where
  "process_message now stamp msg w =
     (case handle_message now stamp (phone msg) (content msg) w of
        (Some e, w1) \<Rightarrow> acknowledge msg w1
      | (None, w1) \<Rightarrow> acknowledge msg w1)"

text \<open>
  One pass of the loop of \<^verbatim>\<open>cleanup_sessions\<close>, at the time \<open>now\<close>: the senders whose
  session has been idle for more than \<^const>\<open>SESSION_TIMEOUT\<close> are collected, then their
  sessions are deleted. The loop itself never returns; \<open>cleanup_sessions\<close> runs the passes
  of the times given.
\<close>

definition expired :: "real \<Rightarrow> (string \<rightharpoonup> session) \<Rightarrow> string set" where
  "expired now ss =
     {p. case ss p of None \<Rightarrow> False | Some s \<Rightarrow> now - last_active s > SESSION_TIMEOUT}"

definition cleanup_sweep :: "real \<Rightarrow> world \<Rightarrow> world" where
  "cleanup_sweep now w = w\<lparr>sessions := sessions w |` (- expired now (sessions w))\<rparr>"

fun cleanup_sessions :: "real list \<Rightarrow> world \<Rightarrow> world" where
  "cleanup_sessions [] w = w"
| "cleanup_sessions (now # ticks) w = cleanup_sessions ticks (cleanup_sweep now w)"


section \<open>The earlier script\<close>

text \<open>
  The file \<^verbatim>\<open>index.py\<close> is an earlier, shorter script of the same bot: no choice of
  language, five answers, one attempt to send, and no guard in the parser. Its functions
  are modelled on the same modem; where a name is that of a function above it carries the
  suffix \<open>_early\<close>.
\<close>

definition groupNames_early :: "string list" where
  "groupNames_early =
     ['''',
      ''Mkama H&C Women'' @ [CHR 0x27] @ ''s Group'',
      ''Chilulu H&C Women'' @ [CHR 0x27] @ ''s Group'',
      ''Chimnyanga H&C Women'' @ [CHR 0x27] @ ''s Group'',
      ''Tchesamu H&C Women'' @ [CHR 0x27] @ ''s Group'',
      ''Emcizini H&C Women'' @ [CHR 0x27] @ ''s Group'',
      ''Mkamaumoza H&C Women'' @ [CHR 0x27] @ ''s Group'',
      ''Kabira H&C Women'' @ [CHR 0x27] @ ''s Group'',
      ''Chambizi H&C Women'' @ [CHR 0x27] @ ''s Group'',
      ''Kanjuchi H&C Womens Savings'',
      ''Tiphunzire nawo Women'' @ [CHR 0x27] @ ''s Group'',
      ''Kanyenda Bank Mkhonde'',
      ''Chivunguti Bank Mkhonde'',
      ''Ukwe Bank Mkhonde'',
      ''Mvunguti Bank Mkhonde'',
      ''Chimbiya H&C Women'' @ [CHR 0x27] @ ''s Group'',
      ''Lisasadzi Bank Mkhonde'',
      ''Kanjeza H&C Women'' @ [CHR 0x27] @ ''s Group'']"

record session_early =
  step_early :: int
  data :: "string \<rightharpoonup> string"
  last_active_early :: real

record world_early =
  sessions_early :: "string \<rightharpoonup> session_early"
  ser_early :: modem
  csv_file_early :: "string list list option"

text \<open>\<^verbatim>\<open>send_sms\<close>: the mode command, then one attempt; nothing is caught.\<close>

definition send_sms_early :: "string \<Rightarrow> string \<Rightarrow> modem \<Rightarrow> (exn + bool) \<times> modem" where
  "send_sms_early ph message m =
     (case send_at_command ''AT+CMGF=1'' m of
        (Inl e, m1) \<Rightarrow> (Inl e, m1)
      | (Inr _, m1) \<Rightarrow>
          (case exchange (Sms (phone_s ph) message) m1 of
             (Fault, m2) \<Rightarrow> (Inl SerialException, m2)
           | (Resp resp, m2) \<Rightarrow> (Inr (contains ''OK'' resp \<or> contains ''>'' resp), m2)))"

text \<open>\<^verbatim>\<open>read_sms\<close>: the third field and the line after the header are read unguarded.\<close>

function read_sms_loop_early :: "string list \<Rightarrow> nat \<Rightarrow> sms list \<Rightarrow> exn + sms list" where
  "read_sms_loop_early lines i messages =
     (if i < length lines then
        (let line = strip (lines ! i) in
         if startswith line ''+CMGL:'' then
           (let parts = py_split CHR '','' line in
            case index_except parts of
              Inl e \<Rightarrow> Inl e
            | Inr idx \<Rightarrow>
                (case py_get parts 2 of
                   Inl e \<Rightarrow> Inl e
                 | Inr p2 \<Rightarrow>
                     (case py_get lines (i + 1) of
                        Inl e \<Rightarrow> Inl e
                      | Inr nxt \<Rightarrow>
                          read_sms_loop_early lines (i + 1 + 1)
                            (messages @
                             [\<lparr>index = idx, phone = strip (remove_chr CHR 0x22 p2),
                               content = strip nxt\<rparr>]))))
         else read_sms_loop_early lines (i + 1) messages)
      else Inr messages)"
  by pat_completeness auto
termination
  by (relation "measure (\<lambda>(lines, i, messages). length lines - i)") auto

declare read_sms_loop_early.simps [simp del]

definition read_sms_parse_early :: "string \<Rightarrow> exn + sms list" where
  "read_sms_parse_early resp = read_sms_loop_early (splitlines resp) 0 []"

definition read_sms_early :: "modem \<Rightarrow> (exn + sms list) \<times> modem" where
  "read_sms_early m =
     (case send_at_command ''AT+CMGF=1'' m of
        (Inl e, m1) \<Rightarrow> (Inl e, m1)
      | (Inr _, m1) \<Rightarrow>
          (case send_at_command (''AT+CMGL='' @ [CHR 0x22] @ ''REC UNREAD'' @ [CHR 0x22]) m1 of
             (Inl e, m2) \<Rightarrow> (Inl e, m2)
           | (Inr resp, m2) \<Rightarrow> (read_sms_parse_early resp, m2)))"

definition mark_sms_as_read :: "string \<Rightarrow> modem \<Rightarrow> (exn + unit) \<times> modem" where
  "mark_sms_as_read idx m =
     (case send_at_command (''AT+CMGD='' @ idx @ '',1'') m of
        (Inl e, m') \<Rightarrow> (Inl e, m')
      | (Inr _, m') \<Rightarrow> (Inr (), m'))"

definition csv_header_early :: "string list" where
  "csv_header_early =
     [''Phone'', ''Group'', ''Amount Saved'', ''Attendance'', ''Social Fund'', ''Loans Taken'',
      ''Loans Repaid'', ''Timestamp'']"

text \<open>
  \<^verbatim>\<open>save_to_csv(data)\<close>: the file is opened for appending, which creates it, and the row of
  the column names is written when the file was not there; only then is the row of the
  report put together. A key that \<open>data\<close> lacks raises \<^verbatim>\<open>KeyError\<close> at that moment, with
  the file left as it then is. The result is the exception, if there is one, and the file.
\<close>

definition save_to_csv_early ::
  "(string \<rightharpoonup> string) \<Rightarrow> string \<Rightarrow> string list list option \<Rightarrow>
   exn option \<times> string list list option" where
  "save_to_csv_early d stamp file =
     (let opened = (case file of None \<Rightarrow> [csv_header_early] | Some rows \<Rightarrow> rows)
      in case those (map d [''phone'', ''group_name'', ''amount_saved'', ''attendance'',
                            ''social_fund'', ''loans_taken'', ''loans_repaid'']) of
           None \<Rightarrow> (Some KeyError, Some opened)
         | Some cells \<Rightarrow> (None, Some (opened @ [cells @ [stamp]])))"

text \<open>
  A step that asks for a number: a text of digits is stored under \<open>key\<close> and the
  conversation moves to the next step with the reply \<open>ask\<close>; any other text is answered
  with \<open>again\<close>.
\<close>

definition number_step ::
  "string \<Rightarrow> string \<Rightarrow> string \<Rightarrow> string \<Rightarrow> string \<Rightarrow> session_early \<Rightarrow> world_early \<Rightarrow>
   string \<times> world_early" where
  "number_step ph msg key ask again s w =
     (if isdigit msg then
        (ask, w\<lparr>sessions_early := (sessions_early w)(ph \<mapsto>
                 s\<lparr>data := (data s)(key \<mapsto> msg), step_early := step_early s + 1\<rparr>)\<rparr>)
      else (again, w))"

text \<open>
  \<^verbatim>\<open>handle_response\<close>; it returns the reply. An exception inside the \<^verbatim>\<open>try\<close> turns
  into the reply of the \<^verbatim>\<open>except\<close> branch, with what was stored before it.
\<close>

definition error_reply :: string where
  "error_reply = ''Error processing input. Please try again.''"

definition handle_response ::
  "real \<Rightarrow> string \<Rightarrow> string \<Rightarrow> string \<Rightarrow> world_early \<Rightarrow> string \<times> world_early" where
  "handle_response now stamp ph message w =
     (let s = (case sessions_early w ph of
                 None \<Rightarrow> \<lparr>step_early = 0, data = Map.empty, last_active_early = now\<rparr>
               | Some s0 \<Rightarrow> s0)\<lparr>last_active_early := now\<rparr>;
          w1 = w\<lparr>sessions_early := (sessions_early w)(ph \<mapsto> s)\<rparr>;
          msg = strip message
      in if step_early s = 0 then
           (if contains ''vsla'' (lower msg) then
              (''Welcome! Choose your group number (1-17):'',
               w1\<lparr>sessions_early := (sessions_early w1)(ph \<mapsto> s\<lparr>step_early := 1\<rparr>)\<rparr>)
            else (''Please start your message with '' @ [CHR 0x27] @ ''VSLA'' @ [CHR 0x27] @
                  '' to report.'', w1))
         else if step_early s = 1 then
           (case valid_group msg of
              Inl e \<Rightarrow> (error_reply, w1)
            | Inr True \<Rightarrow>
                (case py_int msg of
                   Inl e \<Rightarrow> (error_reply, w1)
                 | Inr group_id \<Rightarrow>
                     (case py_get groupNames_early (nat group_id) of
                        Inl e \<Rightarrow> (error_reply, w1)
                      | Inr g \<Rightarrow>
                          (''Enter amount saved:'',
                           w1\<lparr>sessions_early := (sessions_early w1)(ph \<mapsto>
                                 s\<lparr>data := (data s)(''group_name'' \<mapsto> g), step_early := 2\<rparr>)\<rparr>)))
            | Inr False \<Rightarrow> (''Invalid group number. Choose 1-17:'', w1))
         else if step_early s = 2 then
           number_step ph msg ''amount_saved'' ''Enter attendance:''
             ''Invalid number. Enter amount saved:'' s w1
         else if step_early s = 3 then
           number_step ph msg ''attendance'' ''Enter social fund amount:''
             ''Invalid number. Enter attendance:'' s w1
         else if step_early s = 4 then
           number_step ph msg ''social_fund'' ''Enter loans taken:''
             ''Invalid number. Enter social fund amount:'' s w1
         else if step_early s = 5 then
           number_step ph msg ''loans_taken'' ''Enter loans repaid:''
             ''Invalid number. Enter loans taken:'' s w1
         else if step_early s = 6 then
           (if isdigit msg then
              (let d = (data s)(''loans_repaid'' \<mapsto> msg, ''phone'' \<mapsto> ph);
                   w2 = w1\<lparr>sessions_early := (sessions_early w1)(ph \<mapsto> s\<lparr>data := d\<rparr>)\<rparr>
               in case save_to_csv_early d stamp (csv_file_early w2) of
                    (Some e, file) \<Rightarrow> (error_reply, w2\<lparr>csv_file_early := file\<rparr>)
                  | (None, file) \<Rightarrow>
                      (''Thank you! Your report has been received.'',
                       w2\<lparr>csv_file_early := file,
                          sessions_early := (sessions_early w2)(ph := None)\<rparr>))
            else (''Invalid number. Enter loans repaid:'', w1))
         else ([], w1))"

text \<open>
  \<^verbatim>\<open>process_message\<close>: the message is deleted only when the reply was sent; an exception
  of the serial line leaves the function.
\<close>

definition process_message_early ::
  "real \<Rightarrow> string \<Rightarrow> sms \<Rightarrow> world_early \<Rightarrow> exn option \<times> world_early" where
  "process_message_early now stamp msg w =
     (case handle_response now stamp (phone msg) (content msg) w of
        (reply_text, w1) \<Rightarrow>
          (case send_sms_early (phone msg) reply_text (ser_early w1) of
             (Inl e, m) \<Rightarrow> (Some e, w1\<lparr>ser_early := m\<rparr>)
           | (Inr True, m) \<Rightarrow>
               (case mark_sms_as_read (index msg) m of
                  (Inl e, m') \<Rightarrow> (Some e, w1\<lparr>ser_early := m'\<rparr>)
                | (Inr _, m') \<Rightarrow> (None, w1\<lparr>ser_early := m'\<rparr>))
           | (Inr False, m) \<Rightarrow> (None, w1\<lparr>ser_early := m\<rparr>)))"


section \<open>Notions of the specification\<close>

subsection \<open>The grammar of the list of unread messages\<close>

text \<open>
  A header line is a line that begins, white space apart, with the tag \<open>+CMGL:\<close>. The record
  of a header line and of the line after it: the index is the text between the tag and the
  first comma (or colon), the sender is the third of the fields that the commas separate,
  without its quotes, and the body is the line after the header; white space around each of
  them is dropped, and a header of fewer than three fields has the empty sender.
\<close>

definition is_header :: "string \<Rightarrow> bool" where
  "is_header l \<longleftrightarrow> startswith (strip l) ''+CMGL:''"

definition message_of :: "string \<Rightarrow> string \<Rightarrow> sms" where
  "message_of l nxt =
     (let line = strip l; parts = py_split CHR '','' line
      in \<lparr>index = strip (takeWhile (\<lambda>c. c \<noteq> CHR '','' \<and> c \<noteq> CHR '':'') (drop 6 line)),
          phone = (if length parts \<ge> 3 then strip (remove_chr CHR 0x22 (parts ! 2)) else []),
          content = strip nxt\<rparr>)"

text \<open>
  The records of a response, as the specification describes them: a header line introduces a
  record, the line after it is the body of that record, and any other line is passed over.
\<close>

fun records :: "string list \<Rightarrow> sms list" where
  "records [] = []"
| "records [l] = (if is_header l then [message_of l []] else [])"
| "records (l # b # rest) =
     (if is_header l then message_of l b # records rest else records (b # rest))"

text \<open>Every line with the line after it; the last line is followed by nothing.\<close>

fun following :: "string list \<Rightarrow> (string \<times> string) list" where
  "following [] = []"
| "following (l # rest) = (l, case rest of [] \<Rightarrow> [] | b # _ \<Rightarrow> b) # following rest"

subsection \<open>Sending\<close>

text \<open>An attempt fails when the line faults or the text read back has no success token.\<close>

fun failed :: "io \<Rightarrow> bool" where
  "failed Fault \<longleftrightarrow> True"
| "failed (Resp resp) \<longleftrightarrow> \<not> success_token resp"

text \<open>The modem after the texts of a list have been sent to one number, one after the other.\<close>

fun send_all :: "string \<Rightarrow> string list \<Rightarrow> modem \<Rightarrow> modem" where
  "send_all ph [] m = m"
| "send_all ph (message # rest) m = send_all ph rest (snd (send_sms ph message m))"

subsection \<open>The states of a conversation\<close>

text \<open>
  The stored states are the steps \<open>-1\<close> (the language is awaited), \<open>0\<close> (the group is
  awaited) and \<open>1\<close> to \<open>7\<close> (an answer is awaited); from step \<open>0\<close> on the language is one of
  the three of the tables.
\<close>

definition languages :: "string set" where
  "languages = {''english'', ''chichewa'', ''tumbuka''}"

definition wellformed :: "session \<Rightarrow> bool" where
  "wellformed s \<longleftrightarrow>
     step s = - 1 \<or> (0 \<le> step s \<and> step s \<le> 7 \<and> (case lang s of None \<Rightarrow> False | Some lg \<Rightarrow> lg \<in> languages))"

text \<open>The prompt of a state: the texts that ask for the input of that state.\<close>

definition prompt :: "session \<Rightarrow> string list" where
  "prompt s =
     (if step s = - 1 then [LANGUAGE_MENU]
      else
        (case lang s of
           None \<Rightarrow> []
         | Some lg \<Rightarrow>
             if step s = 0 then
               (case group_list_parts lg of None \<Rightarrow> [] | Some (p1, p2) \<Rightarrow> [p1, p2])
             else
               (case followup_questions lg of
                  None \<Rightarrow> []
                | Some qs \<Rightarrow> [qs ! nat (step s - 1)])))"

text \<open>The notice that goes before the prompt when the input of a state was not valid.\<close>

definition notice :: "session \<Rightarrow> string" where
  "notice s =
     (if step s = - 1 then [] else if step s = 0 then ''Invalid group number. ''
      else ''Invalid number. '')"

definition reprompt :: "session \<Rightarrow> string list" where
  "reprompt s = (case prompt s of [] \<Rightarrow> [] | p # ps \<Rightarrow> (notice s @ p) # ps)"

text \<open>The text does not pass the test of the state (and the test does not raise).\<close>

definition rejected :: "session \<Rightarrow> string \<Rightarrow> bool" where
  "rejected s txt \<longleftrightarrow>
     (if step s = - 1 then language_choice txt = None
      else if step s = 0 then valid_group txt = Inr False
      else \<not> isdigit txt)"



text \<open>The texts of one sender handled one after the other, each with its time and its stamp.\<close>

fun handle_all :: "string \<Rightarrow> (real \<times> string \<times> string) list \<Rightarrow> world \<Rightarrow> world" where
  "handle_all ph [] w = w"
| "handle_all ph ((now, stamp, txt) # rest) w =
     handle_all ph rest (snd (handle_message now stamp ph txt w))"


section \<open>Examples\<close>

text \<open>
  A response of the modem that lists one unread message, one in which a header line follows
  a header line, one that ends in a header, and one that ends in two header lines.
\<close>

definition response_one :: string where
  "response_one =
     [CHR 0x0D, CHR 0x0A] @ ''+CMGL: 1,'' @ [CHR 0x22] @ ''REC UNREAD'' @ [CHR 0x22] @ '','' @
     [CHR 0x22] @ ''+265991112222'' @ [CHR 0x22] @ '',,'' @
     [CHR 0x22] @ ''24/01/01,12:00:00+08'' @ [CHR 0x22] @ [CHR 0x0D, CHR 0x0A] @
     ''VSLA report'' @ [CHR 0x0D, CHR 0x0A, CHR 0x0D, CHR 0x0A] @ ''OK'' @ [CHR 0x0D, CHR 0x0A]"

definition response_adjacent :: string where
  "response_adjacent =
     ''+CMGL: 1,'' @ [CHR 0x22] @ ''REC UNREAD'' @ [CHR 0x22] @ '','' @
     [CHR 0x22] @ ''+265991112222'' @ [CHR 0x22] @ [CHR 0x0D, CHR 0x0A] @
     ''+CMGL: 2,'' @ [CHR 0x22] @ ''REC UNREAD'' @ [CHR 0x22] @ '','' @
     [CHR 0x22] @ ''+265993334444'' @ [CHR 0x22] @ [CHR 0x0D, CHR 0x0A] @
     ''VSLA'' @ [CHR 0x0D, CHR 0x0A]"

definition response_cut :: string where
  "response_cut = ''OK'' @ [CHR 0x0D, CHR 0x0A] @ ''+CMGL: 7,'' @ [CHR 0x22] @ ''REC UNREAD'' @ [CHR 0x22]"

definition response_headers_end :: string where
  "response_headers_end =
     ''+CMGL: 1,'' @ [CHR 0x22] @ ''REC UNREAD'' @ [CHR 0x22] @ '','' @
     [CHR 0x22] @ ''+265991112222'' @ [CHR 0x22] @ [CHR 0x0D, CHR 0x0A] @
     ''+CMGL: 2,'' @ [CHR 0x22] @ ''REC UNREAD'' @ [CHR 0x22] @ '','' @
     [CHR 0x22] @ ''+265993334444'' @ [CHR 0x22]"

text \<open>
  A modem that confirms what it is asked, and one that never does. A sender who has chosen
  English and the third group and is asked the first question; the seven answers of that
  sender.
\<close>

definition modem_ok :: modem where
  "modem_ok = \<lparr>script = replicate 12 (Resp ''+CMGS: 12 OK''), wire = []\<rparr>"

definition modem_dead :: modem where
  "modem_dead = \<lparr>script = [Fault, Resp ''ERROR''], wire = []\<rparr>"

definition sender_one :: string where
  "sender_one = ''265991112222''"

definition world_empty :: world where
  "world_empty = \<lparr>sessions = Map.empty, ser = modem_ok, csv_file = None\<rparr>"

definition session_first :: session where
  "session_first =
     \<lparr>step = 1, lang = Some ''english'', answers = [], group = Some ''Chimnyanga'',
      last_active = 120\<rparr>"

definition world_first :: world where
  "world_first = \<lparr>sessions = [sender_one \<mapsto> session_first], ser = modem_ok, csv_file = None\<rparr>"

definition seven_answers :: "(real \<times> string \<times> string) list" where
  "seven_answers =
     [(130, ''2026-01-05, 10:00:10'', ''12''), (140, ''2026-01-05, 10:00:20'', ''5000''),
      (150, ''2026-01-05, 10:00:30'', '' 700''), (160, ''2026-01-05, 10:00:40'', ''0''),
      (170, ''2026-01-05, 10:00:50'', ''1500''), (180, ''2026-01-05, 10:01:00'', ''150''),
      (190, ''2026-01-05, 10:01:10'', ''200'')]"

text \<open>The same sender when the group is awaited, and a message that the modem lists.\<close>

definition session_group :: session where
  "session_group =
     \<lparr>step = 0, lang = Some ''english'', answers = [], group = None, last_active = 110\<rparr>"

definition world_group :: world where
  "world_group = \<lparr>sessions = [sender_one \<mapsto> session_group], ser = modem_ok, csv_file = None\<rparr>"

definition sms_superscript :: sms where
  "sms_superscript = \<lparr>index = ''7'', phone = sender_one, content = [CHR 0xB2]\<rparr>"


text \<open>A modem that takes the mode command and refuses the message, for the earlier script.\<close>

definition modem_refusing :: modem where
  "modem_refusing = \<lparr>script = [Resp ''OK'', Resp ''ERROR''], wire = []\<rparr>"

definition world_early_empty :: world_early where
  "world_early_empty =
     \<lparr>sessions_early = Map.empty, ser_early = modem_refusing, csv_file_early = None\<rparr>"

definition sms_trigger :: sms where
  "sms_trigger = \<lparr>index = ''7'', phone = sender_one, content = ''VSLA''\<rparr>"

section \<open>Reading the unread messages\<close>

lemma py_split_not_Nil: "py_split sep s \<noteq> []"
  by (induction s) (auto split: list.splits)

lemma hd_py_split: "hd (py_split sep s) = takeWhile (\<lambda>c. c \<noteq> sep) s"
  using py_split_not_Nil [of sep]
  by (induction s) (auto split: list.splits)

lemma py_get_0: "xs \<noteq> [] \<Longrightarrow> py_get xs 0 = Inr (hd xs)"
  by (cases xs) (simp_all add: py_get_def)

lemma py_get_Suc: "py_get (x # xs) (Suc n) = py_get xs n"
  by (simp add: py_get_def)

lemma takeWhile_twice: "takeWhile P (takeWhile Q xs) = takeWhile (\<lambda>x. P x \<and> Q x) xs"
  by (induction xs) auto

lemma strip_Nil: "strip [] = []"
  by (simp add: strip_def)

lemma startswith_tagD:
  assumes "startswith line ''+CMGL:''"
  shows "line = ''+CMGL:'' @ drop 6 line"
proof -
  have "length ''+CMGL:'' = 6"
    by simp
  then have "take 6 line = ''+CMGL:''"
    using assms unfolding startswith_def by metis
  moreover have "line = take 6 line @ drop 6 line"
    by simp
  ultimately show ?thesis by simp
qed

text \<open>On a line that begins with the tag the index is found at once: the \<^verbatim>\<open>except\<close>
  branch is never entered and no exception leaves the expression.\<close>

lemma index_try_tag:
  "index_try (''+CMGL:'' @ r) =
     Inr (strip (takeWhile (\<lambda>c. c \<noteq> CHR '','') (takeWhile (\<lambda>c. c \<noteq> CHR '':'') r)))"
  by (simp add: index_try_def py_get_Suc py_get_0 py_split_not_Nil hd_py_split)

lemma header_index_tag:
  "startswith line ''+CMGL:'' \<Longrightarrow>
   header_index line parts =
     Inr (strip (takeWhile (\<lambda>c. c \<noteq> CHR '','') (takeWhile (\<lambda>c. c \<noteq> CHR '':'') (drop 6 line))))"
  using index_try_tag [of "drop 6 line"] startswith_tagD [of line]
  by (simp add: header_index_def)

text \<open>The three ways through one pass of the loop.\<close>

lemma read_sms_loop_done:
  "\<not> i < length ls \<Longrightarrow> read_sms_loop ls i msgs = Inr msgs"
  by (simp add: read_sms_loop.simps [of ls i msgs])

lemma read_sms_loop_skip:
  "i < length ls \<Longrightarrow> \<not> is_header (ls ! i) \<Longrightarrow>
   read_sms_loop ls i msgs = read_sms_loop ls (i + 1) msgs"
  by (simp add: read_sms_loop.simps [of ls i msgs] is_header_def)

lemma read_sms_loop_header:
  assumes "i < length ls" and "is_header (ls ! i)"
  shows "read_sms_loop ls i msgs =
           read_sms_loop ls (i + 1 + 1)
             (msgs @ [message_of (ls ! i) (if i + 1 < length ls then ls ! (i + 1) else [])])"
proof -
  have tag: "startswith (strip (ls ! i)) ''+CMGL:''"
    using assms(2) by (simp add: is_header_def)
  show ?thesis
    using assms(1) tag header_index_tag [OF tag]
    by (simp add: read_sms_loop.simps [of ls i msgs] message_of_def Let_def takeWhile_twice
        strip_Nil)
qed

text \<open>The loop, started at any line with any messages collected, returns them followed by
  the records of the lines that are left.\<close>

lemma read_sms_loop_records:
  "read_sms_loop ls i msgs = Inr (msgs @ records (drop i ls))"
proof (induction "length ls - i" arbitrary: i msgs rule: less_induct)
  case less
  show ?case
  proof (cases "i < length ls")
    case False
    then show ?thesis by (simp add: read_sms_loop_done)
  next
    case in_range: True
    then have d: "drop i ls = ls ! i # drop (Suc i) ls"
      by (simp add: Cons_nth_drop_Suc)
    show ?thesis
    proof (cases "is_header (ls ! i)")
      case False
      have "read_sms_loop ls (i + 1) msgs = Inr (msgs @ records (drop (i + 1) ls))"
        using in_range by (intro less) simp
      moreover have "records (drop (i + 1) ls) = records (drop i ls)"
        using False d by (cases "drop (Suc i) ls") simp_all
      ultimately show ?thesis
        using in_range False by (simp add: read_sms_loop_skip)
    next
      case hdr: True
      let ?m = "message_of (ls ! i) (if i + 1 < length ls then ls ! (i + 1) else [])"
      have "read_sms_loop ls (i + 1 + 1) (msgs @ [?m])
              = Inr ((msgs @ [?m]) @ records (drop (i + 1 + 1) ls))"
        using in_range by (intro less) simp
      moreover have "[?m] @ records (drop (i + 1 + 1) ls) = records (drop i ls)"
      proof (cases "i + 1 < length ls")
        case True
        then have "drop (Suc i) ls = ls ! (i + 1) # drop (i + 1 + 1) ls"
          by (simp add: Cons_nth_drop_Suc)
        with d hdr True show ?thesis by simp
      next
        case False
        with d hdr show ?thesis by simp
      qed
      ultimately show ?thesis
        using in_range hdr by (simp add: read_sms_loop_header)
    qed
  qed
qed

lemma records_one_per_header:
  "list_all (\<lambda>(l, n). \<not> (is_header l \<and> is_header n)) (following ls) \<Longrightarrow>
   records ls = map (\<lambda>(l, n). message_of l n) (filter (\<lambda>(l, n). is_header l) (following ls))"
  by (induction ls rule: records.induct) (auto split: list.splits)

text \<open>
  When the lines at the end of the response that match the header pattern are odd in number,
  the last of them starts a record: the last record is the one of the last line, and it has
  no body.
\<close>

lemma content_message_of_Nil: "content (message_of l []) = []"
  by (simp add: message_of_def Let_def strip_Nil)

lemma records_last_header:
  "odd (length (takeWhile is_header (rev ls))) \<Longrightarrow>
   records ls \<noteq> [] \<and> last (records ls) = message_of (last ls) []"
proof (induction ls rule: records.induct)
  case 1
  then show ?case by simp
next
  case (2 l)
  then show ?case by (auto split: if_splits)
next
  case (3 l b rest)
  define run where "run xs = length (takeWhile is_header (rev xs))" for xs
  have prem: "odd (run (l # b # rest))"
    using "3.prems" by (simp add: run_def)
  have parity: "odd (run (if is_header l then rest else b # rest))"
  proof (cases "\<forall>x\<in>set rest. is_header x")
    case True
    then have app: "takeWhile is_header (rev rest @ ys) = rev rest @ takeWhile is_header ys" for ys
      by (intro takeWhile_append2) simp
    have "takeWhile is_header (rev rest) = rev rest"
      using True by (simp add: takeWhile_eq_all_conv)
    then have "run rest = length rest"
      by (simp only: run_def length_rev)
    moreover have "run (b # rest) = length rest + (if is_header b then 1 else 0)"
      using app [of "[b]"] by (simp add: run_def)
    moreover have "run (l # b # rest) =
        length rest + (if is_header b then (if is_header l then 2 else 1) else 0)"
      using app [of "[b, l]"] by (simp add: run_def)
    ultimately show ?thesis
      using prem by (simp split: if_splits)
  next
    case False
    then obtain x where "x \<in> set (rev rest)" and "\<not> is_header x"
      by auto
    then have app: "takeWhile is_header (rev rest @ ys) = takeWhile is_header (rev rest)" for ys
      by (rule takeWhile_append1)
    have "run (b # rest) = run rest"
      using app [of "[b]"] by (simp add: run_def)
    moreover have "run (l # b # rest) = run rest"
      using app [of "[b, l]"] by (simp add: run_def)
    ultimately show ?thesis
      using prem by simp
  qed
  show ?case
  proof (cases "is_header l")
    case True
    with parity have odd_rest: "odd (run rest)"
      by simp
    then have "rest \<noteq> []"
      by (auto simp: run_def)
    moreover from odd_rest True "3.IH"(1)
    have "records rest \<noteq> [] \<and> last (records rest) = message_of (last rest) []"
      by (simp add: run_def)
    ultimately show ?thesis
      using True by simp
  next
    case False
    with parity "3.IH"(2) show ?thesis by (simp add: run_def)
  qed
qed

text \<open>
  Claim C9, as it is stated, fails on a response in which a line that matches the header
  pattern comes directly after a header line: the parser takes it as the body of that
  header and goes on behind it, so that it yields no message of its own. Here two lines
  match the pattern and one message is returned; the text of the second sender is lost.
\<close>

lemma splitlines_response_adjacent:
  "splitlines response_adjacent =
     [''+CMGL: 1,'' @ [CHR 0x22] @ ''REC UNREAD'' @ [CHR 0x22] @ '','' @
      [CHR 0x22] @ ''+265991112222'' @ [CHR 0x22],
      ''+CMGL: 2,'' @ [CHR 0x22] @ ''REC UNREAD'' @ [CHR 0x22] @ '','' @
      [CHR 0x22] @ ''+265993334444'' @ [CHR 0x22],
      ''VSLA'']"
  by (simp add: response_adjacent_def splitlines.simps linebreak_chr_def startswith_def)

theorem adjacent_headers_counterexample:
  "length (filter is_header (splitlines response_adjacent)) = 2 \<and>
   read_sms_parse response_adjacent =
     Inr [\<lparr>index = ''1'', phone = ''+265991112222'',
           content = ''+CMGL: 2,'' @ [CHR 0x22] @ ''REC UNREAD'' @ [CHR 0x22] @ '','' @
                     [CHR 0x22] @ ''+265993334444'' @ [CHR 0x22]\<rparr>]"
  by (simp add: read_sms_parse_def read_sms_loop_records splitlines_response_adjacent
      is_header_def message_of_def strip_def isspace_chr_def startswith_def remove_chr_def)

text \<open>
  Claim C9, amended. Whatever text the modem gives back, the parser returns the records of
  its lines: a header line introduces a record and the line directly after it is the body of
  that record, whatever it looks like; any other line is passed over. So for every response
  in which no line that matches the header pattern comes directly after another one, the
  messages are, in order, those of the lines that match the pattern, one for each: the
  index from the first field of the header, the sender from its third field without the
  quotes, the body from the line after it; and the lines that do not match yield nothing.
\<close>

theorem read_sms_parse_records:
  "read_sms_parse out = Inr (records (splitlines out)) \<and>
   (list_all (\<lambda>(l, n). \<not> (is_header l \<and> is_header n)) (following (splitlines out)) \<longrightarrow>
    read_sms_parse out =
      Inr (map (\<lambda>(l, n). message_of l n)
            (filter (\<lambda>(l, n). is_header l) (following (splitlines out)))))"
  by (simp add: read_sms_parse_def read_sms_loop_records records_one_per_header)


lemma splitlines_response_one:
  "splitlines response_one =
     [[],
      ''+CMGL: 1,'' @ [CHR 0x22] @ ''REC UNREAD'' @ [CHR 0x22] @ '','' @
      [CHR 0x22] @ ''+265991112222'' @ [CHR 0x22] @ '',,'' @
      [CHR 0x22] @ ''24/01/01,12:00:00+08'' @ [CHR 0x22],
      ''VSLA report'', [], ''OK'']"
  by (simp add: response_one_def splitlines.simps linebreak_chr_def startswith_def)

theorem read_sms_parse_records_witness:
  "list_all (\<lambda>(l, n). \<not> (is_header l \<and> is_header n)) (following (splitlines response_one)) \<and>
   read_sms_parse response_one =
     Inr [\<lparr>index = ''1'', phone = ''+265991112222'', content = ''VSLA report''\<rparr>]"
  using read_sms_parse_records [of response_one]
  by (simp add: splitlines_response_one is_header_def message_of_def strip_def isspace_chr_def
      startswith_def remove_chr_def)

text \<open>
  Claim C10, as it is stated, fails on a response whose last two lines both match the header
  pattern: the final line is a header line, and the parser takes it as the body of the
  header before it. The one message that results has that line as its body, which is not
  empty, and the final header yields no message.
\<close>

lemma splitlines_response_headers_end:
  "splitlines response_headers_end =
     [''+CMGL: 1,'' @ [CHR 0x22] @ ''REC UNREAD'' @ [CHR 0x22] @ '','' @
      [CHR 0x22] @ ''+265991112222'' @ [CHR 0x22],
      ''+CMGL: 2,'' @ [CHR 0x22] @ ''REC UNREAD'' @ [CHR 0x22] @ '','' @
      [CHR 0x22] @ ''+265993334444'' @ [CHR 0x22]]"
  by (simp add: response_headers_end_def splitlines.simps linebreak_chr_def startswith_def)

theorem final_header_counterexample:
  "is_header (last (splitlines response_headers_end)) \<and>
   read_sms_parse response_headers_end =
     Inr [\<lparr>index = ''1'', phone = ''+265991112222'',
           content = ''+CMGL: 2,'' @ [CHR 0x22] @ ''REC UNREAD'' @ [CHR 0x22] @ '','' @
                     [CHR 0x22] @ ''+265993334444'' @ [CHR 0x22]\<rparr>]"
  by (simp add: read_sms_parse_def read_sms_loop_records splitlines_response_headers_end
      is_header_def message_of_def strip_def isspace_chr_def startswith_def remove_chr_def)

text \<open>
  Claim C10, amended. The parser is total: for every text it returns a list of messages and
  raises nothing. When the response ends in a header line that is not the body of the
  header line before it (the lines at its end that match the header pattern are odd in
  number), the last message is the one of that final header, with its index and its sender,
  and has the empty body.
\<close>

theorem read_sms_parse_total:
  "\<exists>msgs. read_sms_parse out = Inr msgs \<and>
     (odd (length (takeWhile is_header (rev (splitlines out)))) \<longrightarrow>
      msgs \<noteq> [] \<and> last msgs = message_of (last (splitlines out)) [] \<and>
      content (last msgs) = [])"
  by (simp add: read_sms_parse_def read_sms_loop_records records_last_header
      content_message_of_Nil)

lemma splitlines_response_cut:
  "splitlines response_cut = [''OK'', ''+CMGL: 7,'' @ [CHR 0x22] @ ''REC UNREAD'' @ [CHR 0x22]]"
  by (simp add: response_cut_def splitlines.simps linebreak_chr_def startswith_def)

theorem read_sms_parse_total_witness:
  "odd (length (takeWhile is_header (rev (splitlines response_cut)))) \<and>
   read_sms_parse response_cut = Inr [\<lparr>index = ''7'', phone = [], content = []\<rparr>] \<and>
   message_of (last (splitlines response_cut)) [] = \<lparr>index = ''7'', phone = [], content = []\<rparr>"
proof -
  have run: "odd (length (takeWhile is_header (rev (splitlines response_cut))))"
    by (simp add: splitlines_response_cut is_header_def strip_def isspace_chr_def startswith_def)
  obtain msgs where "read_sms_parse response_cut = Inr msgs"
    and "last msgs = message_of (last (splitlines response_cut)) []"
    using read_sms_parse_total [of response_cut] run by blast
  moreover have "read_sms_parse response_cut =
      Inr [\<lparr>index = ''7'', phone = [], content = []\<rparr>]"
    by (simp add: read_sms_parse_def read_sms_loop_records splitlines_response_cut is_header_def
        message_of_def strip_def isspace_chr_def startswith_def remove_chr_def)
  ultimately show ?thesis
    using run by auto
qed


section \<open>Sending with retries\<close>

lemma exchange_eq:
  "exchange r m =
     (case script m of [] \<Rightarrow> Resp [] | x # _ \<Rightarrow> x,
      m\<lparr>script := tl (script m), wire := wire m @ [r]\<rparr>)"
  by (simp add: exchange_def split: list.splits)

lemma not_success_empty: "\<not> success_token []"
  by (simp add: success_token_def)

lemma send_sms_loop_first:
  "script m = Resp resp # rest \<Longrightarrow> success_token resp \<Longrightarrow>
   send_sms_loop (Suc k) ph message m =
     (True, m\<lparr>script := rest, wire := wire m @ [Sms (phone_s ph) message]\<rparr>)"
  by (simp add: exchange_eq)

lemma send_sms_loop_all_failed:
  "list_all failed (take k (script m)) \<Longrightarrow>
   send_sms_loop k ph message m =
     (False, m\<lparr>script := drop k (script m),
               wire := wire m @ replicate k (Sms (phone_s ph) message)\<rparr>)"
proof (induction k arbitrary: m)
  case 0
  then show ?case by simp
next
  case (Suc k)
  let ?m' = "m\<lparr>script := tl (script m), wire := wire m @ [Sms (phone_s ph) message]\<rparr>"
  have rest: "list_all failed (take k (script ?m'))"
    using Suc.prems by (cases "script m") simp_all
  have step: "send_sms_loop (Suc k) ph message m = send_sms_loop k ph message ?m'"
    using Suc.prems
    by (cases "script m") (auto simp: exchange_eq not_success_empty split: io.splits)
  show ?case
    unfolding step Suc.IH [OF rest]
    by (simp add: drop_Suc)
qed

text \<open>
  Claim C5. The sender makes at most three attempts. When the first text read back contains
  a success token, it returns success after that one attempt; when none of the attempts
  gets a success token (the line faults, or the text read back has none), it returns failure
  after exactly three attempts. An attempt that finds nothing scripted reads the empty text,
  which has no token.
\<close>

theorem send_sms_retries:
  "retries = 3 \<and>
   (script m = Resp resp # rest \<and> success_token resp \<longrightarrow>
      send_sms ph message m =
        (True, m\<lparr>script := rest, wire := wire m @ [Sms (phone_s ph) message]\<rparr>)) \<and>
   (list_all failed (take retries (script m)) \<longrightarrow>
      send_sms ph message m =
        (False, m\<lparr>script := drop retries (script m),
                  wire := wire m @ replicate retries (Sms (phone_s ph) message)\<rparr>))"
  using send_sms_loop_first [of m resp rest 2 ph message]
    send_sms_loop_all_failed [of retries m ph message]
  by (simp add: send_sms_def retries_def numeral_3_eq_3 numeral_2_eq_2)
theorem send_sms_retries_witness:
  "send_sms sender_one ''hello'' modem_ok =
     (True, \<lparr>script = replicate 11 (Resp ''+CMGS: 12 OK''), wire = [Sms ''+265991112222'' ''hello'']\<rparr>) \<and>
   list_all failed (take retries (script modem_dead)) \<and>
   send_sms sender_one ''hello'' modem_dead =
     (False, \<lparr>script = [],
              wire = [Sms ''+265991112222'' ''hello'', Sms ''+265991112222'' ''hello'',
                      Sms ''+265991112222'' ''hello'']\<rparr>)"
proof -
  have ok: "script modem_ok = Resp ''+CMGS: 12 OK'' # replicate 11 (Resp ''+CMGS: 12 OK'')"
    by (simp add: modem_ok_def numeral_eq_Suc)
  have token: "success_token ''+CMGS: 12 OK''"
    by (simp add: success_token_def startswith_def)
  have dead: "list_all failed (take retries (script modem_dead))"
    by (simp add: modem_dead_def retries_def success_token_def startswith_def)
  show ?thesis
    using send_sms_retries [of modem_ok "''+CMGS: 12 OK''" "replicate 11 (Resp ''+CMGS: 12 OK'')"
        sender_one "''hello''"]
      send_sms_retries [of modem_dead "[]" "[]" sender_one "''hello''"] ok token dead
    by (simp add: modem_ok_def modem_dead_def retries_def phone_s_def startswith_def
        sender_one_def numeral_eq_Suc)
qed

section \<open>The trigger keyword and white space\<close>

lemma startswith_iff: "startswith s p \<longleftrightarrow> (\<exists>ss. s = p @ ss)"
proof
  assume "startswith s p"
  then have "s = p @ drop (length p) s"
    unfolding startswith_def by (metis append_take_drop_id)
  then show "\<exists>ss. s = p @ ss" ..
next
  assume "\<exists>ss. s = p @ ss"
  then show "startswith s p"
    by (auto simp: startswith_def)
qed

lemma contains_iff: "contains sub s \<longleftrightarrow> (\<exists>ps ss. s = ps @ sub @ ss)"
proof (induction s)
  case Nil
  then show ?case by auto
next
  case (Cons c cs)
  have "(\<exists>ps ss. c # cs = ps @ sub @ ss) \<longleftrightarrow>
        (\<exists>ss. c # cs = sub @ ss) \<or> (\<exists>ps ss. cs = ps @ sub @ ss)"
    by (auto simp: Cons_eq_append_conv)
  with Cons show ?case
    by (simp add: startswith_iff)
qed

lemma containsI: "s = ps @ sub @ ss \<Longrightarrow> contains sub s"
  using contains_iff by blast

lemma containsE: "contains sub s \<Longrightarrow> \<exists>ps ss. s = ps @ sub @ ss"
  using contains_iff by blast

lemma dropWhile_keeps:
  assumes "m \<noteq> []" and "\<not> P (hd m)"
  shows "\<exists>qs. dropWhile P (ps @ m @ ss) = qs @ m @ ss"
proof (cases "\<forall>x\<in>set ps. P x")
  case True
  then have "dropWhile P (ps @ m @ ss) = dropWhile P (m @ ss)"
    by (simp add: dropWhile_append2)
  also have "\<dots> = [] @ m @ ss"
    using assms by (cases m) simp_all
  finally show ?thesis by (rule exI)
next
  case False
  then obtain x where "x \<in> set ps" "\<not> P x" by blast
  then have "dropWhile P (ps @ m @ ss) = dropWhile P ps @ m @ ss"
    by (rule dropWhile_append1)
  then show ?thesis by (rule exI)
qed

lemma strip_keeps:
  assumes "m \<noteq> []" and "\<not> isspace_chr (hd m)" and "\<not> isspace_chr (last m)"
  shows "\<exists>qs rs. strip (ps @ m @ ss) = qs @ m @ rs"
proof -
  obtain qs where qs: "dropWhile isspace_chr (ps @ m @ ss) = qs @ m @ ss"
    using dropWhile_keeps [of m isspace_chr ps ss] assms(1,2) by blast
  have "rev m \<noteq> []" and "\<not> isspace_chr (hd (rev m))"
    using assms(1,3) by (simp_all add: hd_rev)
  then obtain rs where "dropWhile isspace_chr (rev ss @ rev m @ rev qs) = rs @ rev m @ rev qs"
    using dropWhile_keeps [of "rev m" isspace_chr "rev ss" "rev qs"] by blast
  then have "strip (ps @ m @ ss) = qs @ m @ rev rs"
    by (simp add: strip_def qs)
  then show ?thesis by blast
qed

lemma strip_inside: "\<exists>a b. s = a @ strip s @ b"
proof -
  define d where "d = dropWhile isspace_chr s"
  have 1: "s = takeWhile isspace_chr s @ d"
    by (simp add: d_def)
  have "rev (dropWhile isspace_chr (rev d)) @ rev (takeWhile isspace_chr (rev d))
          = rev (takeWhile isspace_chr (rev d) @ dropWhile isspace_chr (rev d))"
    by (simp only: rev_append)
  also have "\<dots> = rev (rev d)"
    by (simp only: takeWhile_dropWhile_id)
  finally have 2: "strip s @ rev (takeWhile isspace_chr (rev d)) = d"
    by (simp add: strip_def d_def)
  have "s = takeWhile isspace_chr s @ strip s @ rev (takeWhile isspace_chr (rev d))"
    using 1 2 by simp
  then show ?thesis by blast
qed

lemma lower_chr_changes: "lower_chr c \<noteq> c \<Longrightarrow> c \<in> set upper_letters"
  unfolding lower_chr_def
  by (auto split: option.splits dest!: map_of_SomeD dest: set_zip_leftD)

lemma upper_letters_no_space: "list_all (\<lambda>c. \<not> isspace_chr c) upper_letters"
  by (simp add: upper_letters_def isspace_chr_def)

lemma isspace_lower_chr: "isspace_chr c \<Longrightarrow> lower_chr c = c"
  using lower_chr_changes [of c] upper_letters_no_space
  by (auto simp: list_all_iff)

lemma not_isspace_v: "\<not> isspace_chr CHR ''v''" and not_isspace_a: "\<not> isspace_chr CHR ''a''"
  by (simp_all add: isspace_chr_def)

lemma lower_append: "lower (a @ b) = lower a @ lower b"
  by (simp add: lower_def)

lemma lower_vsla_ends:
  assumes "map lower_chr m = ''vsla''"
  shows "m \<noteq> [] \<and> \<not> isspace_chr (hd m) \<and> \<not> isspace_chr (last m)"
proof -
  from assms obtain c1 c2 c3 c4 where m4: "m = [c1, c2, c3, c4]"
    and v: "lower_chr c1 = CHR ''v''" and a: "lower_chr c4 = CHR ''a''"
    by (auto simp: map_eq_Cons_conv)
  have "\<not> isspace_chr c1"
    using isspace_lower_chr [of c1] v not_isspace_v by metis
  moreover have "\<not> isspace_chr c4"
    using isspace_lower_chr [of c4] a not_isspace_a by metis
  ultimately show ?thesis
    by (simp add: m4)
qed

lemma map_eq_middle:
  assumes "map f s = ps @ k @ ss"
  shows "\<exists>ps0 m ss0. s = ps0 @ m @ ss0 \<and> map f m = k"
proof -
  define m where "m = take (length k) (drop (length ps) s)"
  have "map f m = take (length k) (drop (length ps) (map f s))"
    by (simp only: m_def take_map drop_map)
  also have "\<dots> = k"
    by (simp add: assms)
  finally have "map f m = k" .
  moreover have "s = take (length ps) s @ m @ drop (length k) (drop (length ps) s)"
    by (simp only: m_def append_take_drop_id)
  ultimately show ?thesis
    by blast
qed

lemma contains_strip_imp:
  assumes "contains k (lower (strip s))"
  shows "contains k (lower s)"
proof -
  from containsE [OF assms] obtain ps ss where 1: "lower (strip s) = ps @ k @ ss"
    by (elim exE)
  from strip_inside [of s] obtain a b where 2: "s = a @ strip s @ b"
    by (elim exE)
  have "lower s = lower (a @ strip s @ b)"
    using 2 by (rule arg_cong)
  also have "\<dots> = lower a @ lower (strip s) @ lower b"
    by (simp only: lower_append)
  also have "\<dots> = (lower a @ ps) @ k @ (ss @ lower b)"
    by (simp only: 1 append_assoc)
  finally show ?thesis
    by (rule containsI)
qed

lemma contains_imp_strip:
  assumes ends: "\<And>m. map lower_chr m = k \<Longrightarrow>
      m \<noteq> [] \<and> \<not> isspace_chr (hd m) \<and> \<not> isspace_chr (last m)"
    and "contains k (lower s)"
  shows "contains k (lower (strip s))"
proof -
  from containsE [OF assms(2)] obtain ps ss where "lower s = ps @ k @ ss"
    by (elim exE)
  then have "map lower_chr s = ps @ k @ ss"
    by (simp only: lower_def)
  from map_eq_middle [OF this] obtain ps0 m ss0
    where s1: "s = ps0 @ m @ ss0" and m: "map lower_chr m = k"
    by (elim exE conjE)
  have e1: "m \<noteq> []" and e2: "\<not> isspace_chr (hd m)" and e3: "\<not> isspace_chr (last m)"
    using ends [OF m] by blast+
  from strip_keeps [OF e1 e2 e3, of ps0 ss0] obtain qs rs
    where 3: "strip (ps0 @ m @ ss0) = qs @ m @ rs"
    by (elim exE)
  have "strip s = qs @ m @ rs"
    using 3 unfolding s1 .
  then have "lower (strip s) = map lower_chr (qs @ m @ rs)"
    by (simp only: lower_def)
  also have "\<dots> = lower qs @ k @ lower rs"
    by (simp only: map_append m lower_def)
  finally show ?thesis
    by (rule containsI)
qed

lemma contains_lower_strip:
  assumes "\<And>m. map lower_chr m = k \<Longrightarrow>
      m \<noteq> [] \<and> \<not> isspace_chr (hd m) \<and> \<not> isspace_chr (last m)"
  shows "contains k (lower (strip s)) \<longleftrightarrow> contains k (lower s)"
  using contains_strip_imp [of k s] contains_imp_strip [of k s, OF assms] by (rule iffI)

text \<open>Dropping the white space around a text neither hides nor brings in the keyword.\<close>

lemma contains_vsla_strip:
  "contains ''vsla'' (lower (strip s)) \<longleftrightarrow> contains ''vsla'' (lower s)"
  by (rule contains_lower_strip) (rule lower_vsla_ends)

lemma contains_vsla_short: "length t < 4 \<Longrightarrow> \<not> contains ''vsla'' t"
  by (auto simp: contains_iff)

lemma trigger_no_language:
  assumes "contains ''vsla'' (lower t)"
  shows "language_choice t = None"
proof -
  have "\<not> length (lower t) < 4"
    using assms contains_vsla_short by blast
  then have "4 \<le> length t"
    by (simp add: lower_def)
  then show ?thesis
    by (auto simp: language_choice_def)
qed


section \<open>The message handler\<close>

lemma followup_questions_languages:
  "lg \<in> languages \<Longrightarrow> \<exists>qs. followup_questions lg = Some qs \<and> length qs = 7"
  by (auto simp: languages_def followup_questions_def questions_english_def
      questions_chichewa_def questions_tumbuka_def)

lemma group_list_parts_languages:
  "lg \<in> languages \<Longrightarrow> \<exists>p1 p2. group_list_parts lg = Some (p1, p2)"
  by (auto simp: languages_def group_list_parts_def group_list_english_def
      group_list_chichewa_def group_list_tumbuka_def)

lemma language_choice_languages: "language_choice txt = Some lg \<Longrightarrow> lg \<in> languages"
  by (auto simp: language_choice_def languages_def split: if_splits)

lemma reply_sessions [simp]: "sessions (reply ph message w) = sessions w"
  and reply_csv_file [simp]: "csv_file (reply ph message w) = csv_file w"
  and reply_ser: "ser (reply ph message w) = snd (send_sms ph message (ser w))"
  by (simp_all add: reply_def)

lemma reply_eq: "reply ph message w = w\<lparr>ser := send_all ph [message] (ser w)\<rparr>"
  by (simp add: reply_def)

lemma reply_reply_eq:
  "reply ph b (reply ph a w) = w\<lparr>ser := send_all ph [a, b] (ser w)\<rparr>"
  by (simp add: reply_def)

text \<open>The handler on a sender whose session is stored.\<close>

lemma handle_message_stored:
  assumes "sessions w ph = Some s0"
  shows "handle_message now stamp ph txt w =
     (let s = s0\<lparr>last_active := now\<rparr>;
          w1 = w\<lparr>sessions := (sessions w)(ph \<mapsto> s)\<rparr>
      in if step s0 = - 1 then language_step ph (strip txt) s w1
         else if step s0 = 0 then group_step ph (strip txt) s w1
         else if 1 \<le> step s0 \<and> step s0 \<le> 7 then answer_step stamp ph (strip txt) s w1
         else (None, w1))"
  using assms by (simp add: handle_message_def Let_def dom_def)

subsection \<open>Senders without a session\<close>

lemma handle_message_no_trigger:
  assumes "sessions w ph = None" and "\<not> contains ''vsla'' (lower txt)"
  shows "handle_message now stamp ph txt w = (None, w)"
  using assms by (simp add: handle_message_def Let_def dom_def contains_vsla_strip)

text \<open>
  Claim C2. A text without the keyword \<open>vsla\<close> (in any case of the letters) from a sender
  who has no session changes nothing: no session is stored, nothing is sent, no report is
  written.
\<close>

theorem no_trigger_ignored:
  assumes "sessions w ph = None" and "\<not> contains ''vsla'' (lower txt)"
  shows "handle_message now stamp ph txt w = (None, w)"
  using assms by (rule handle_message_no_trigger)

theorem no_trigger_ignored_witness:
  "sessions world_empty sender_one = None \<and> \<not> contains ''vsla'' (lower ''Hello VSL'') \<and>
   handle_message 100 ''2026-01-05, 10:00:00'' sender_one ''Hello VSL'' world_empty =
     (None, world_empty)"
  using no_trigger_ignored [of world_empty sender_one "''Hello VSL''" 100 "''2026-01-05, 10:00:00''"]
  by (simp add: world_empty_def lower_def lower_chr_def upper_letters_def lower_letters_def
      startswith_def)

lemma handle_message_trigger:
  assumes "sessions w ph = None" and "contains ''vsla'' (lower txt)"
  shows "handle_message now stamp ph txt w =
           (None, w\<lparr>sessions := (sessions w)(ph \<mapsto>
                      \<lparr>step = - 1, lang = None, answers = [], group = None, last_active = now\<rparr>),
                    ser := send_all ph [LANGUAGE_MENU] (ser w)\<rparr>)"
proof -
  have t: "contains ''vsla'' (lower (strip txt))"
    using assms(2) by (simp add: contains_vsla_strip)
  have "language_choice (strip txt) = None"
    using t by (rule trigger_no_language)
  then show ?thesis
    using assms(1) t
    by (simp add: handle_message_def Let_def dom_def new_session_def language_step_def reply_eq)
qed

text \<open>
  Claim C3. A text with the keyword from a sender who has no session stores a new session
  at step \<open>-1\<close>, where the language is awaited, with no language, no group and no answers,
  and sends the language menu to the sender.
\<close>

theorem trigger_opens_session:
  assumes "sessions w ph = None" and "contains ''vsla'' (lower txt)"
  shows "handle_message now stamp ph txt w =
           (None, w\<lparr>sessions := (sessions w)(ph \<mapsto>
                      \<lparr>step = - 1, lang = None, answers = [], group = None, last_active = now\<rparr>),
                    ser := send_all ph [LANGUAGE_MENU] (ser w)\<rparr>)"
  using assms by (rule handle_message_trigger)

theorem trigger_opens_session_witness:
  "sessions world_empty sender_one = None \<and> contains ''vsla'' (lower ''VSLA report'') \<and>
   fst (handle_message 100 ''2026-01-05, 10:00:00'' sender_one ''VSLA report'' world_empty) = None \<and>
   sessions (snd (handle_message 100 ''2026-01-05, 10:00:00'' sender_one ''VSLA report'' world_empty))
     sender_one =
     Some \<lparr>step = - 1, lang = None, answers = [], group = None, last_active = 100\<rparr> \<and>
   wire (ser (snd (handle_message 100 ''2026-01-05, 10:00:00'' sender_one ''VSLA report'' world_empty))) =
     [Sms ''+265991112222'' LANGUAGE_MENU]"
proof -
  have none: "sessions world_empty sender_one = None"
    by (simp add: world_empty_def)
  have trigger: "contains ''vsla'' (lower ''VSLA report'')"
    by (simp add: lower_def lower_chr_def upper_letters_def lower_letters_def startswith_def)
  have sent: "wire (send_all sender_one [LANGUAGE_MENU] modem_ok) = [Sms ''+265991112222'' LANGUAGE_MENU]"
    by (simp add: send_sms_def retries_def numeral_eq_Suc exchange_eq modem_ok_def
        success_token_def startswith_def phone_s_def sender_one_def)
  show ?thesis
    using trigger_opens_session [OF none trigger, of 100 "''2026-01-05, 10:00:00''"] none trigger
      sent
    by (simp add: world_empty_def)
qed

subsection \<open>Input that is accepted\<close>

text \<open>
  Every step that stores a further state sends the prompt of that state; the last answer
  deletes the session, appends the report to the file and thanks the sender.
\<close>

lemma language_accepted:
  assumes "sessions w ph = Some s" and "step s = - 1" and "language_choice (strip txt) = Some lg"
  shows "handle_message now stamp ph txt w =
           (None, w\<lparr>sessions := (sessions w)(ph \<mapsto> s\<lparr>last_active := now, lang := Some lg, step := 0\<rparr>),
                    ser := send_all ph (prompt (s\<lparr>last_active := now, lang := Some lg, step := 0\<rparr>)) (ser w)\<rparr>)"
proof -
  obtain p1 p2 where "group_list_parts lg = Some (p1, p2)"
    using group_list_parts_languages language_choice_languages assms(3) by blast
  then show ?thesis
    using assms
    by (simp add: handle_message_stored language_step_def prompt_def lookup_def reply_reply_eq)
qed

lemma valid_group_range:
  "valid_group t = Inr True \<Longrightarrow>
   py_int t = Inr (decimal_value t) \<and> 1 \<le> decimal_value t \<and> decimal_value t \<le> 17"
  by (auto simp: valid_group_def py_int_def split: if_splits)


lemma length_groupNames: "length groupNames = 18"
  by (simp add: groupNames_def)

lemma group_accepted:
  assumes "sessions w ph = Some s" and "step s = 0" and "lang s = Some lg" and "lg \<in> languages"
    and "valid_group (strip txt) = Inr True"
  shows "handle_message now stamp ph txt w =
           (None, w\<lparr>sessions := (sessions w)(ph \<mapsto>
                      s\<lparr>last_active := now,
                        group := Some (groupNames ! nat (decimal_value (strip txt))), step := 1\<rparr>),
                    ser := send_all ph
                      (prompt (s\<lparr>last_active := now,
                        group := Some (groupNames ! nat (decimal_value (strip txt))), step := 1\<rparr>))
                      (ser w)\<rparr>)"
proof -
  obtain qs where qs: "followup_questions lg = Some qs" "length qs = 7"
    using followup_questions_languages assms(4) by blast
  have "nat (decimal_value (strip txt)) < length groupNames"
    using valid_group_range [OF assms(5)] unfolding length_groupNames by linarith
  then show ?thesis
    using assms(1,2,3,5) qs valid_group_range [OF assms(5)]
    by (simp add: handle_message_stored group_step_def prompt_def lookup_def py_get_def reply_eq)
qed

lemma answer_accepted:
  assumes "sessions w ph = Some s" and "1 \<le> step s" and "step s < 7"
    and "lang s = Some lg" and "lg \<in> languages" and "isdigit (strip txt)"
  shows "handle_message now stamp ph txt w =
           (None, w\<lparr>sessions := (sessions w)(ph \<mapsto>
                      s\<lparr>last_active := now, answers := answers s @ [strip txt],
                        step := step s + 1\<rparr>),
                    ser := send_all ph
                      (prompt (s\<lparr>last_active := now, answers := answers s @ [strip txt],
                        step := step s + 1\<rparr>))
                      (ser w)\<rparr>)"
proof -
  obtain qs where qs: "followup_questions lg = Some qs" "length qs = 7"
    using followup_questions_languages assms(5) by blast
  have "nat (step s) < length qs"
    using assms(2,3) qs by simp
  then show ?thesis
    using assms(1,2,3,4,6) qs
    by (simp add: handle_message_stored answer_step_def prompt_def lookup_def py_get_def reply_eq
        Let_def)
qed

lemma answer_completes:
  assumes "sessions w ph = Some s" and "step s = 7" and "isdigit (strip txt)"
  shows "handle_message now stamp ph txt w =
           (None, w\<lparr>sessions := (sessions w)(ph := None),
                    csv_file := save_to_csv ph (lang s) (group s) (answers s @ [strip txt]) stamp
                                  (csv_file w),
                    ser := send_all ph [''Thank you! Your report has been received and saved.'']
                             (ser w)\<rparr>)"
  using assms
  by (simp add: handle_message_stored answer_step_def reply_eq Let_def)

subsection \<open>Input that is not accepted\<close>

text \<open>
  In each of the stored states, a text on which the test of the state is false leaves the
  step, the answers, the group and the language of the session as they were (only the time
  of the last activity is set) and sends the prompt of that state again: the language menu
  as it is, the two parts of the group list and the question behind their notice
  \<open>Invalid group number. \<close> or \<open>Invalid number. \<close>.
\<close>

lemma handle_message_rejected:
  assumes "sessions w ph = Some s" and "wellformed s" and "rejected s (strip txt)"
  shows "handle_message now stamp ph txt w =
           (None, w\<lparr>sessions := (sessions w)(ph \<mapsto> s\<lparr>last_active := now\<rparr>),
                    ser := send_all ph (reprompt s) (ser w)\<rparr>)"
proof -
  consider (language) "step s = - 1"
    | (group) "step s = 0"
    | (answer) "1 \<le> step s" "step s \<le> 7"
    using assms(2) unfolding wellformed_def by fastforce
  then show ?thesis
  proof cases
    case language
    then show ?thesis
      using assms(1,3)
      by (simp add: handle_message_stored language_step_def rejected_def reprompt_def prompt_def
          notice_def reply_eq)
  next
    case group
    then obtain lg where lg: "lang s = Some lg" "lg \<in> languages"
      using assms(2) by (auto simp: wellformed_def split: option.splits)
    then obtain p1 p2 where "group_list_parts lg = Some (p1, p2)"
      using group_list_parts_languages by blast
    then show ?thesis
      using assms(1,3) group lg
      by (simp add: handle_message_stored group_step_def rejected_def reprompt_def prompt_def
          notice_def lookup_def reply_reply_eq)
  next
    case answer
    then obtain lg where lg: "lang s = Some lg" "lg \<in> languages"
      using assms(2) by (auto simp: wellformed_def split: option.splits)
    then obtain qs where qs: "followup_questions lg = Some qs" "length qs = 7"
      using followup_questions_languages by blast
    have "nat (step s - 1) < length qs"
      using answer qs by simp
    then show ?thesis
      using assms(1,3) answer lg qs
      by (simp add: handle_message_stored answer_step_def rejected_def reprompt_def prompt_def
          notice_def lookup_def py_get_def reply_eq)
  qed
qed

text \<open>
  At the group step the test can raise instead of being false: \<^verbatim>\<open>isdigit\<close> holds of the
  text and \<^verbatim>\<open>int\<close> does not read it. The handler then leaves with the exception, after
  the time of the last activity was set and before anything is sent.
\<close>

lemma group_test_raises:
  assumes "sessions w ph = Some s" and "step s = 0" and "valid_group (strip txt) = Inl e"
  shows "handle_message now stamp ph txt w =
           (Some e, w\<lparr>sessions := (sessions w)(ph \<mapsto> s\<lparr>last_active := now\<rparr>)\<rparr>)"
  using assms by (simp add: handle_message_stored group_step_def)

text \<open>
  Claim C4 does not hold of the program. A sender who is asked for the group and answers
  with a superscript two sends a text that is no group number, so that it fails the
  validation of that state; but \<^verbatim>\<open>isdigit\<close> holds of it and \<^verbatim>\<open>int\<close> raises
  \<^verbatim>\<open>ValueError\<close> on it. The handler leaves with that exception: the session stays at the
  group step, and nothing is sent to the sender, neither the notice nor the group list that
  the prompt of the state consists of.
\<close>

theorem superscript_group_not_reprompted:
  "sessions world_group sender_one = Some session_group \<and> wellformed session_group \<and>
   step session_group = 0 \<and>
   isdigit (strip [CHR 0xB2]) \<and> valid_group (strip [CHR 0xB2]) = Inl ValueError \<and>
   handle_message 130 ''2026-01-05, 10:00:10'' sender_one [CHR 0xB2] world_group =
     (Some ValueError,
      world_group\<lparr>sessions := [sender_one \<mapsto> session_group\<lparr>last_active := 130\<rparr>]\<rparr>) \<and>
   wire (ser (snd (handle_message 130 ''2026-01-05, 10:00:10'' sender_one [CHR 0xB2] world_group))) = [] \<and>
   length (reprompt session_group) = 2"
proof -
  have stored: "sessions world_group sender_one = Some session_group"
    by (simp add: world_group_def)
  have wf: "wellformed session_group"
    by (simp add: wellformed_def session_group_def languages_def)
  have step: "step session_group = 0"
    by (simp add: session_group_def)
  have bare: "strip [CHR 0xB2] = [CHR 0xB2]"
    by (simp add: strip_def isspace_chr_def)
  have digit: "isdigit [CHR 0xB2]"
    by (simp add: isdigit_def isdigit_chr_def)
  have raises: "valid_group (strip [CHR 0xB2]) = Inl ValueError"
    by (simp add: bare valid_group_def digit py_int_def isdecimal_chr_def)
  have again: "length (reprompt session_group) = 2"
    by (simp add: reprompt_def prompt_def session_group_def group_list_parts_def
        group_list_english_def)
  show ?thesis
    using group_test_raises [OF stored step raises, of 130 "''2026-01-05, 10:00:10''"]
      stored wf step digit raises again
    by (simp add: bare) (simp add: world_group_def modem_ok_def)
qed

subsection \<open>The seven answers\<close>

lemma answers_complete:
  assumes "sessions w ph = Some s" and "1 \<le> step s" and "step s \<le> 7"
    and "lang s = Some lg" and "lg \<in> languages"
    and "int (length ins) = 8 - step s"
    and "list_all (\<lambda>(now, stamp, txt). isdigit (strip txt)) ins"
  shows "sessions (handle_all ph ins w) = (sessions w)(ph := None) \<and>
         csv_file (handle_all ph ins w) =
           save_to_csv ph (lang s) (group s)
             (answers s @ map (\<lambda>(now, stamp, txt). strip txt) ins)
             (fst (snd (last ins))) (csv_file w)"
  using assms
proof (induction ins arbitrary: w s)
  case Nil
  then show ?case by simp
next
  case (Cons x rest)
  obtain now stamp t where x: "x = (now, stamp, t)"
    by (cases x)
  have valid: "isdigit (strip t)"
    using Cons.prems(7) x by simp
  show ?case
  proof (cases "step s = 7")
    case True
    then have "rest = []"
      using Cons.prems(6) by simp
    then show ?thesis
      using x answer_completes [OF Cons.prems(1) True valid, of now stamp]
      by simp
  next
    case False
    then have lt: "step s < 7"
      using Cons.prems(3) by simp
    let ?s' = "s\<lparr>last_active := now, answers := answers s @ [strip t], step := step s + 1\<rparr>"
    let ?w' = "snd (handle_message now stamp ph t w)"
    have hm: "?w' = w\<lparr>sessions := (sessions w)(ph \<mapsto> ?s'),
                      ser := send_all ph (prompt ?s') (ser w)\<rparr>"
      using answer_accepted [OF Cons.prems(1,2) lt Cons.prems(4,5) valid, of now stamp]
      by simp
    have rest: "rest \<noteq> []"
      using Cons.prems(6) lt by auto
    have "sessions (handle_all ph rest ?w') = (sessions ?w')(ph := None) \<and>
          csv_file (handle_all ph rest ?w') =
            save_to_csv ph (lang ?s') (group ?s')
              (answers ?s' @ map (\<lambda>(now, stamp, txt). strip txt) rest)
              (fst (snd (last rest))) (csv_file ?w')"
    proof (rule Cons.IH)
      show "sessions ?w' ph = Some ?s'" by (simp add: hm)
      show "1 \<le> step ?s'" using Cons.prems(2) by simp
      show "step ?s' \<le> 7" using lt by simp
      show "lang ?s' = Some lg" using Cons.prems(4) by simp
      show "lg \<in> languages" by (rule Cons.prems(5))
      show "int (length rest) = 8 - step ?s'" using Cons.prems(6) by simp
      show "list_all (\<lambda>(now, stamp, txt). isdigit (strip txt)) rest"
        using Cons.prems(7) by simp
    qed
    then show ?thesis
      using x rest by (simp add: hm)
  qed
qed

lemma seven_cells:
  assumes "length as = 7"
  shows "[answer_cell as 0, answer_cell as 1, answer_cell as 2, answer_cell as 3,
          answer_cell as 4, answer_cell as 5, answer_cell as 6] = as"
proof -
  from assms obtain a0 a1 a2 a3 a4 a5 a6 where "as = [a0, a1, a2, a3, a4, a5, a6]"
    by (auto simp: length_Suc_conv numeral_eq_Suc)
  then show ?thesis
    by (simp add: answer_cell_def)
qed

text \<open>
  Claim C1. A sender whose session has a language of the tables and a group recorded and
  awaits the first answer sends seven texts of digits, handled one after the other. Then
  the session of the sender is deleted and one row is appended to the report file: the
  sender, the language, the group, the seven answers (without the white space around them)
  in the order in which they came, and the time stamp of the last one. The header row is
  written first when the file did not exist.
\<close>

theorem seven_answers_complete:
  assumes "sessions w ph = Some s" and "step s = 1" and "answers s = []"
    and "lang s = Some lg" and "lg \<in> languages" and "group s = Some g"
    and "length ins = 7"
    and "list_all (\<lambda>(now, stamp, txt). isdigit (strip txt)) ins"
  shows "sessions (handle_all ph ins w) = (sessions w)(ph := None) \<and>
         csv_file (handle_all ph ins w) =
           Some ((case csv_file w of None \<Rightarrow> [csv_header] | Some rows \<Rightarrow> rows) @
                 [[ph, lg, g] @ map (\<lambda>(now, stamp, txt). strip txt) ins @
                  [fst (snd (last ins))]])"
proof -
  have "sessions (handle_all ph ins w) = (sessions w)(ph := None) \<and>
        csv_file (handle_all ph ins w) =
          save_to_csv ph (lang s) (group s)
            (answers s @ map (\<lambda>(now, stamp, txt). strip txt) ins)
            (fst (snd (last ins))) (csv_file w)"
    using assms by (intro answers_complete [where lg = lg]) simp_all
  moreover have "length (map (\<lambda>(now, stamp, txt). strip txt) ins) = 7"
    using assms(7) by simp
  ultimately show ?thesis
    using assms(3,4,6) seven_cells [of "map (\<lambda>(now, stamp, txt). strip txt) ins"]
    by (simp add: save_to_csv_def csv_row_def cell_def split: option.splits)
qed

theorem seven_answers_complete_witness:
  "sessions world_first sender_one = Some session_first \<and>
   list_all (\<lambda>(now, stamp, txt). isdigit (strip txt)) seven_answers \<and>
   sessions (handle_all sender_one seven_answers world_first) sender_one = None \<and>
   csv_file (handle_all sender_one seven_answers world_first) =
     Some [csv_header,
           [''265991112222'', ''english'', ''Chimnyanga'', ''12'', ''5000'', ''700'', ''0'',
            ''1500'', ''150'', ''200'', ''2026-01-05, 10:01:10'']]"
proof -
  have stored: "sessions world_first sender_one = Some session_first"
    by (simp add: world_first_def)
  have digits: "list_all (\<lambda>(now, stamp, txt). isdigit (strip txt)) seven_answers"
    by (simp add: seven_answers_def strip_def isspace_chr_def isdigit_def isdigit_chr_def
        isdecimal_chr_def)
  have texts: "map (\<lambda>(now, stamp, txt). strip txt) seven_answers =
      [''12'', ''5000'', ''700'', ''0'', ''1500'', ''150'', ''200'']"
    by (simp add: seven_answers_def strip_def isspace_chr_def)
  have "english": "''english'' \<in> languages"
    by (simp add: languages_def)
  show ?thesis
    using seven_answers_complete [OF stored _ _ _ "english" _ _ digits, of "''Chimnyanga''"]
      stored digits
    by (simp add: session_first_def texts) (simp add: seven_answers_def world_first_def sender_one_def)
qed

subsection \<open>The test for numbers\<close>













subsection \<open>The stored states\<close>

text \<open>
  The handler keeps every stored session in one of the states of the conversation: what
  the claims above assume of a stored session holds of all sessions that the program
  stores, from the empty dictionary on.
\<close>

lemma wellformed_last_active [simp]: "wellformed (s\<lparr>last_active := t\<rparr>) = wellformed s"
  by (simp add: wellformed_def)

lemma handle_message_keeps_wellformed:
  assumes "\<And>p s. sessions w p = Some s \<Longrightarrow> wellformed s"
    and "sessions (snd (handle_message now stamp ph txt w)) p = Some s'"
  shows "wellformed s'"
proof (cases "sessions w ph")
  case None
  show ?thesis
  proof (cases "contains ''vsla'' (lower txt)")
    case True
    show ?thesis
      using assms handle_message_trigger [OF None True, of now stamp]
      by (auto simp: wellformed_def split: if_splits)
  next
    case False
    show ?thesis
      using assms handle_message_no_trigger [OF None False, of now stamp] by simp
  qed
next
  case (Some s)
  then have wf: "wellformed s"
    by (rule assms(1))
  let ?after = "sessions (snd (handle_message now stamp ph txt w))"
  have keep: "?after = (sessions w)(ph \<mapsto> s'') \<Longrightarrow> wellformed s'' \<Longrightarrow> wellformed s'" for s''
    using assms by (auto split: if_splits)
  have gone: "?after = (sessions w)(ph := None) \<Longrightarrow> wellformed s'"
    using assms by (auto split: if_splits)
  have same: "rejected s (strip txt) \<Longrightarrow> wellformed s'"
  proof -
    assume "rejected s (strip txt)"
    from handle_message_rejected [OF Some wf this, of now stamp]
    have "?after = (sessions w)(ph \<mapsto> s\<lparr>last_active := now\<rparr>)"
      by simp
    then show ?thesis
      by (rule keep) (simp add: wf)
  qed
  consider (language) "step s = - 1"
    | (group) lg where "step s = 0" "lang s = Some lg" "lg \<in> languages"
    | (answer) lg where "1 \<le> step s" "step s \<le> 7" "lang s = Some lg" "lg \<in> languages"
    using wf unfolding wellformed_def by (fastforce split: option.splits)
  then show ?thesis
  proof cases
    case language
    show ?thesis
    proof (cases "language_choice (strip txt)")
      case None
      then show ?thesis
        using language by (intro same) (simp add: rejected_def)
    next
      case choice: (Some lg)
      from language_accepted [OF Some language choice, of now stamp]
      have "?after = (sessions w)(ph \<mapsto> s\<lparr>last_active := now, lang := Some lg, step := 0\<rparr>)"
        by simp
      then show ?thesis
        by (rule keep) (simp add: wellformed_def language_choice_languages [OF choice])
    qed
  next
    case group
    show ?thesis
    proof (cases "valid_group (strip txt)")
      case (Inl e)
      then have "?after = (sessions w)(ph \<mapsto> s\<lparr>last_active := now\<rparr>)"
        using Some group by (simp add: handle_message_stored group_step_def)
      then show ?thesis
        by (rule keep) (simp add: wf)
    next
      case (Inr b)
      show ?thesis
      proof (cases b)
        case True
        with Inr have valid: "valid_group (strip txt) = Inr True"
          by simp
        from group_accepted [OF Some group valid, of now stamp]
        have "?after = (sessions w)(ph \<mapsto> s\<lparr>last_active := now,
                group := Some (groupNames ! nat (decimal_value (strip txt))), step := 1\<rparr>)"
          by simp
        then show ?thesis
          by (rule keep) (simp add: wellformed_def group)
      next
        case False
        then show ?thesis
          using group Inr by (intro same) (simp add: rejected_def)
      qed
    qed
  next
    case answer
    show ?thesis
    proof (cases "isdigit (strip txt)")
      case digits: True
      show ?thesis
      proof (cases "step s = 7")
        case True
        from answer_completes [OF Some True digits, of now stamp]
        have "?after = (sessions w)(ph := None)"
          by simp
        then show ?thesis by (rule gone)
      next
        case False
        then have lt: "step s < 7" using answer by simp
        from answer_accepted [OF Some answer(1) lt answer(3,4) digits, of now stamp]
        have "?after = (sessions w)(ph \<mapsto> s\<lparr>last_active := now,
                answers := answers s @ [strip txt], step := step s + 1\<rparr>)"
          by simp
        then show ?thesis
          by (rule keep) (use answer lt in \<open>simp add: wellformed_def\<close>)
      qed
    next
      case False
      then show ?thesis
        using answer by (intro same) (simp add: rejected_def)
    qed
  qed
qed

section \<open>The worker and the sweep\<close>

lemma delete_sms_wire: "wire (snd (delete_sms idx m)) = wire m @ [At (''AT+CMGD='' @ idx)]"
  by (simp add: delete_sms_def send_at_command_def exchange_eq split: io.splits list.splits)

text \<open>
  Claim C6. Whatever the handler did with a message (it may have returned, it may have
  raised, its replies may have been sent or not), the worker then asks the modem to delete
  the message of that index, and does nothing else. A fault of that deletion is caught.
\<close>

theorem process_message_acknowledges:
  "wire (ser (process_message now stamp msg w)) =
     wire (ser (snd (handle_message now stamp (phone msg) (content msg) w))) @
     [At (''AT+CMGD='' @ index msg)] \<and>
   sessions (process_message now stamp msg w) =
     sessions (snd (handle_message now stamp (phone msg) (content msg) w)) \<and>
   csv_file (process_message now stamp msg w) =
     csv_file (snd (handle_message now stamp (phone msg) (content msg) w))"
proof -
  have "wire (ser (acknowledge msg w1)) = wire (ser w1) @ [At (''AT+CMGD='' @ index msg)] \<and>
        sessions (acknowledge msg w1) = sessions w1 \<and> csv_file (acknowledge msg w1) = csv_file w1" for w1
    using delete_sms_wire [of "index msg" "ser w1"]
    by (auto simp: acknowledge_def split: prod.splits sum.splits)
  then show ?thesis
    by (simp add: process_message_def split: prod.splits option.splits)
qed

text \<open>
  An instance: the group is awaited and the text is a superscript two, which passes
  \<^verbatim>\<open>isdigit\<close> and on which \<^verbatim>\<open>int\<close> raises. The handler leaves with that exception,
  nothing is sent, and the message is deleted all the same.
\<close>

theorem process_message_acknowledges_witness:
  "fst (handle_message 130 ''2026-01-05, 10:00:10'' (phone sms_superscript)
         (content sms_superscript) world_group) = Some ValueError \<and>
   wire (ser (process_message 130 ''2026-01-05, 10:00:10'' sms_superscript world_group)) =
     [At ''AT+CMGD=7'']"
proof -
  have stored: "sessions world_group sender_one = Some session_group"
    by (simp add: world_group_def)
  have raised: "handle_message 130 ''2026-01-05, 10:00:10'' sender_one [CHR 0xB2] world_group =
      (Some ValueError,
       world_group\<lparr>sessions := (sessions world_group)(sender_one \<mapsto> session_group\<lparr>last_active := 130\<rparr>)\<rparr>)"
    by (simp add: handle_message_stored [OF stored] session_group_def group_step_def
        valid_group_def py_int_def isdigit_def isdigit_chr_def isdecimal_chr_def strip_def
        isspace_chr_def)
  show ?thesis
    using process_message_acknowledges [of 130 "''2026-01-05, 10:00:10''" sms_superscript world_group]
    by (simp add: sms_superscript_def raised) (simp add: world_group_def modem_ok_def)
qed

text \<open>
  Claim C7. One sweep at the time \<open>now\<close> removes every session that has been idle for more
  than the timeout of 2400 seconds and keeps every other session as it is (also the one
  idle for exactly the timeout); it stores no session and leaves the modem and the report
  file alone.
\<close>

theorem cleanup_sweep_expiry:
  "(sessions w p = Some s \<and> now - last_active s > SESSION_TIMEOUT \<longrightarrow>
      sessions (cleanup_sweep now w) p = None) \<and>
   (sessions w p = Some s \<and> now - last_active s \<le> SESSION_TIMEOUT \<longrightarrow>
      sessions (cleanup_sweep now w) p = Some s) \<and>
   (sessions w p = None \<longrightarrow> sessions (cleanup_sweep now w) p = None) \<and>
   ser (cleanup_sweep now w) = ser w \<and> csv_file (cleanup_sweep now w) = csv_file w"
  by (simp add: cleanup_sweep_def expired_def restrict_map_def)

theorem cleanup_sweep_expiry_witness:
  "sessions world_first sender_one = Some session_first \<and>
   2521 - last_active session_first > SESSION_TIMEOUT \<and>
   sessions (cleanup_sweep 2521 world_first) sender_one = None \<and>
   2520 - last_active session_first \<le> SESSION_TIMEOUT \<and>
   sessions (cleanup_sweep 2520 world_first) sender_one = Some session_first"
  using cleanup_sweep_expiry [of world_first sender_one session_first 2521]
    cleanup_sweep_expiry [of world_first sender_one session_first 2520]
  by (simp add: world_first_def session_first_def SESSION_TIMEOUT_def)


section \<open>Where the earlier script departs\<close>

text \<open>
  Where \<^verbatim>\<open>index.py\<close> departs from what is proved above of \<^verbatim>\<open>fullBot.py\<close>. Its parser
  raises \<^verbatim>\<open>IndexError\<close> on a response that ends in a header line (and on a header of fewer
  than three fields).
\<close>

lemma read_sms_parse_early_raises: "read_sms_parse_early response_cut = Inl IndexError"
  by (simp add: read_sms_parse_early_def splitlines_response_cut
      read_sms_loop_early.simps [of _ 0] read_sms_loop_early.simps [of _ "Suc 0"]
      strip_def isspace_chr_def startswith_def index_except_def py_get_def)

text \<open>
  A first text without the keyword is not passed over: a session at step \<open>0\<close> is stored
  and the sender is told to start with the keyword.
\<close>

lemma handle_response_no_trigger:
  assumes "sessions_early w ph = None" and "\<not> contains ''vsla'' (lower txt)"
  shows "handle_response now stamp ph txt w =
           (''Please start your message with '' @ [CHR 0x27] @ ''VSLA'' @ [CHR 0x27] @ '' to report.'',
            w\<lparr>sessions_early := (sessions_early w)(ph \<mapsto>
                 \<lparr>step_early = 0, data = Map.empty, last_active_early = now\<rparr>)\<rparr>)"
  using assms by (simp add: handle_response_def Let_def contains_vsla_strip)

text \<open>
  A report that lacks a key raises \<^verbatim>\<open>KeyError\<close> after the file was opened: a file that
  was not there then holds the row of the column names and no report.
\<close>

lemma save_to_csv_early_no_key:
  "save_to_csv_early Map.empty stamp None = (Some KeyError, Some [csv_header_early])"
  by (simp add: save_to_csv_early_def)

text \<open>A message is sent in one attempt, after the mode command.\<close>

lemma send_sms_early_once:
  assumes "script m = Resp a # Resp b # rest"
  shows "send_sms_early ph message m =
           (Inr (contains ''OK'' b \<or> contains ''>'' b),
            m\<lparr>script := rest, wire := wire m @ [At ''AT+CMGF=1'', Sms (phone_s ph) message]\<rparr>)"
  using assms by (simp add: send_sms_early_def send_at_command_def exchange_eq)

text \<open>
  When the reply was not sent, the worker does not ask the modem to delete the message, so
  that the modem lists it again.
\<close>

lemma process_message_early_unacknowledged:
  assumes "handle_response now stamp (phone msg) (content msg) w = (r, w1)"
    and "send_sms_early (phone msg) r (ser_early w1) = (Inr False, m)"
  shows "process_message_early now stamp msg w = (None, w1\<lparr>ser_early := m\<rparr>)"
  using assms by (simp add: process_message_early_def)

lemma process_message_early_refused:
  "wire (ser_early (snd (process_message_early 100 ''2026-01-05 10:00:00'' sms_trigger
                          world_early_empty))) =
     [At ''AT+CMGF=1'', Sms ''+265991112222'' ''Welcome! Choose your group number (1-17):'']"
proof -
  have "handle_response 100 ''2026-01-05 10:00:00'' sender_one ''VSLA'' world_early_empty =
      (''Welcome! Choose your group number (1-17):'',
       world_early_empty\<lparr>sessions_early :=
         [sender_one \<mapsto> \<lparr>step_early = 1, data = Map.empty, last_active_early = 100\<rparr>]\<rparr>)"
    by (simp add: handle_response_def world_early_empty_def strip_def isspace_chr_def lower_def
        lower_chr_def upper_letters_def lower_letters_def startswith_def)
  moreover have "send_sms_early sender_one t modem_refusing =
      (Inr False, \<lparr>script = [], wire = [At ''AT+CMGF=1'', Sms ''+265991112222'' t]\<rparr>)" for t
    by (simp add: send_sms_early_once [of _ "''OK''" "''ERROR''" "[]"] modem_refusing_def
        startswith_def phone_s_def sender_one_def)
  ultimately show ?thesis
    by (simp add: process_message_early_def sms_trigger_def world_early_empty_def)
qed

end
